theory Spec2Isabelle
  imports Main "HOL-Library.Sublist"
begin

section \<open>Patterns\<close>

text \<open>
  The linter keeps four compiled patterns (\<^verbatim>\<open>*regexp.Regexp\<close>) and one package-level
  pattern for generated files.  The fragment of the pattern syntax that the source's own
  pattern strings use is modelled here: literal characters, \<^verbatim>\<open>.\<close>, \<^verbatim>\<open>^\<close>, \<^verbatim>\<open>$\<close>,
  postfix \<^verbatim>\<open>*\<close> and \<^verbatim>\<open>|\<close>.  Without flags, \<^verbatim>\<open>.\<close> is any character but a newline,
  \<^verbatim>\<open>^\<close> is the beginning of the text and \<^verbatim>\<open>$\<close> is its end.
\<close>

datatype regex =
    Literal char
  | AnyCharNotNL
  | BeginText
  | EndText
  | EmptyMatch
  | Concat regex regex
  | Alternate regex regex
  | Star regex

text \<open>
  A cursor is a position in the text being searched: whether it is the beginning of the
  text, and the input that is left.
\<close>

type_synonym cursor = "bool \<times> string"

text \<open>
  \<open>star_from n step x\<close>: the cursors reached from \<open>x\<close> by at most \<open>n\<close> iterations of
  \<open>step\<close>, each of which consumes input.  An iteration that consumes nothing reaches no
  new cursor, and no more iterations than characters are left can consume input.
\<close>

primrec star_from :: "nat \<Rightarrow> (cursor \<Rightarrow> cursor list) \<Rightarrow> cursor \<Rightarrow> cursor list" where
  "star_from 0 step x = [x]"
| "star_from (Suc n) step x =
     x # concat (map (star_from n step) [y \<leftarrow> step x. length (snd y) < length (snd x)])"

text \<open>\<open>rest re x\<close>: the cursors at which a match of \<open>re\<close> that begins at \<open>x\<close> can end.\<close>

primrec rest :: "regex \<Rightarrow> cursor \<Rightarrow> cursor list" where
  "rest (Literal c) x =
     (case snd x of [] \<Rightarrow> [] | a # as \<Rightarrow> if a = c then [(False, as)] else [])"
| "rest AnyCharNotNL x =
     (case snd x of [] \<Rightarrow> [] | a # as \<Rightarrow> if a \<noteq> CHR 0x0A then [(False, as)] else [])"
| "rest BeginText x = (if fst x then [x] else [])"
| "rest EndText x = (if snd x = [] then [x] else [])"
| "rest EmptyMatch x = [x]"
| "rest (Concat r1 r2) x = concat (map (rest r2) (rest r1 x))"
| "rest (Alternate r1 r2) x = rest r1 x @ rest r2 x"
| "rest (Star r) x = star_from (length (snd x)) (rest r) x"

text \<open>
  \<^verbatim>\<open>(*Regexp).MatchString\<close> reports whether the text contains any match of the pattern:
  the search tries every position of the text as the beginning of a match.  A text is a
  list of 8-bit characters here, and \<^verbatim>\<open>.\<close> consumes one of them, where the library's
  \<^verbatim>\<open>.\<close> consumes one UTF-8 code point.  For \<^verbatim>\<open>.*\<close> and for a \<^verbatim>\<open>.\<close> that ends a pattern,
  the only uses in the source's patterns, the answer is the same: no byte of a code point
  of several bytes is a newline or an ASCII character.
\<close>

fun search :: "regex \<Rightarrow> bool \<Rightarrow> string \<Rightarrow> bool" where
  "search re b [] = (rest re (b, []) \<noteq> [])"
| "search re b (c # cs) = (rest re (b, c # cs) \<noteq> [] \<or> search re False cs)"

definition MatchString :: "regex \<Rightarrow> string \<Rightarrow> bool" where
  "MatchString re s = search re True s"

text \<open>
  \<^verbatim>\<open>regexp.Compile\<close> on the modelled fragment.  A \<^verbatim>\<open>*\<close> with nothing to repeat and a
  doubled \<^verbatim>\<open>**\<close> are syntax errors.  A pattern that uses another operator of the full
  syntax (backslash, \<^verbatim>\<open>+ ? ( ) [ ] { }\<close>) is outside the model: the library compiles
  many such patterns, \<open>regexp_Compile\<close> yields \<open>None\<close> for all of them.  So a statement
  about a run whose flags have been parsed is a statement about patterns of the fragment,
  which holds the defaults of all four flags and the pattern for generated files.
\<close>

definition outside_fragment :: "char \<Rightarrow> bool" where
  "outside_fragment c =
     (c \<in> set [CHR 0x5C, CHR ''+'', CHR ''?'', CHR ''('', CHR '')'', CHR ''['', CHR '']'',
                CHR ''{'', CHR ''}''])"

definition atom :: "char \<Rightarrow> regex" where
  "atom c =
     (if c = CHR ''.'' then AnyCharNotNL
      else if c = CHR ''^'' then BeginText
      else if c = CHR ''$'' then EndText
      else Literal c)"

fun parse_concat :: "string \<Rightarrow> regex list option" where
  "parse_concat [] = Some []"
| "parse_concat (c # cs) =
     (if c = CHR ''*'' \<or> outside_fragment c then None
      else case cs of
        [] \<Rightarrow> Some [atom c]
      | d # ds \<Rightarrow>
          if d = CHR ''*'' then
            (case ds of
               [] \<Rightarrow> Some [Star (atom c)]
             | e # es \<Rightarrow>
                 if e = CHR ''*'' then None
                 else map_option ((#) (Star (atom c))) (parse_concat (e # es)))
          else map_option ((#) (atom c)) (parse_concat (d # ds)))"

fun split_alternatives :: "string \<Rightarrow> string list" where
  "split_alternatives [] = [[]]"
| "split_alternatives (c # cs) =
     (case split_alternatives cs of
        [] \<Rightarrow> [[c]]
      | a # as \<Rightarrow> if c = CHR ''|'' then [] # a # as else (c # a) # as)"

definition concatenation :: "regex list \<Rightarrow> regex" where
  "concatenation atoms = foldr Concat atoms EmptyMatch"

fun alternation :: "regex list \<Rightarrow> regex" where
  "alternation [] = EmptyMatch"
| "alternation [r] = r"
| "alternation (r # rs) = Alternate r (alternation rs)"

definition regexp_Compile :: "string \<Rightarrow> regex option" where
  "regexp_Compile pattern =
     (case those (map parse_concat (split_alternatives pattern)) of
        None \<Rightarrow> None
      | Some alts \<Rightarrow> Some (alternation (map concatenation alts)))"


section \<open>Data model\<close>

text \<open>
  Modelled from the spec: the type \<^verbatim>\<open>lintpack.CheckerInfo\<close> is not among the sources.  A
  registration entry has a name and zero or more tags; \<open>initCheckers\<close> reads nothing else.
\<close>

record CheckerInfo =
  Name :: string
  Tags :: "string list"

text \<open>
  Modelled from the spec: the type \<^verbatim>\<open>lintpack.Warning\<close> is not among the sources.  A
  diagnostic is a position and a text; the position is kept as the file set renders it for
  the warning's node.
\<close>

record Warning =
  Position :: string
  Text :: string

text \<open>
  What \<^verbatim>\<open>recover()\<close> yields in the deferred function when the call of \<^verbatim>\<open>Check\<close> has
  panicked: a value that implements \<^verbatim>\<open>error\<close>, any other value that is not \<^verbatim>\<open>nil\<close>, or
  \<^verbatim>\<open>nil\<close>.  The last is the case of \<^verbatim>\<open>panic(nil)\<close> with Go before 1.21, which this
  source was written for; from Go 1.21 on the runtime turns \<^verbatim>\<open>panic(nil)\<close> into a panic
  with a run-time error, which is an \<open>ErrorValue\<close>.
\<close>

datatype panic_value = NilValue | ErrorValue string | OtherValue string

datatype check_result = Returns "Warning list" | Panics panic_value

text \<open>
  Of a comment group the linter reads its \<^verbatim>\<open>Text()\<close> only; of a file, the file name
  recorded for its position and its comment groups.
\<close>

record CommentGroup =
  CommentText :: string

record File =
  PosFilename :: string
  Comments :: "CommentGroup list"

text \<open>
  Modelled from the spec: \<^verbatim>\<open>lintpack.Context\<close> is not among the sources.  The run context
  holds the package and the compilation unit currently being inspected;
  \<open>SetPackageInfo\<close> and \<open>SetFileInfo\<close> reassign them in place before each unit.
\<close>

record Context =
  Pkg :: string
  Filename :: string

definition NewContext :: Context where
  "NewContext = \<lparr>Pkg = [], Filename = []\<rparr>"

definition SetPackageInfo :: "string \<Rightarrow> Context \<Rightarrow> Context" where
  "SetPackageInfo pkg c = c\<lparr>Pkg := pkg\<rparr>"

definition SetFileInfo :: "string \<Rightarrow> Context \<Rightarrow> Context" where
  "SetFileInfo name c = c\<lparr>Filename := name\<rparr>"

text \<open>
  The type \<^verbatim>\<open>lintpack.Checker\<close>.  The linter reads its field \<^verbatim>\<open>Info\<close> and calls its
  method \<^verbatim>\<open>Check\<close>, which empties the buffer of warnings, lets the checker's file walker
  walk the file and returns the buffer.  The file walkers are the rule implementations,
  which are not among the sources: what a walk leaves in the buffer, or the panic it ends
  with, is the value of the field \<open>Check\<close> here, for the shared context as it is when the
  call is made.
\<close>

record Checker =
  Info :: CheckerInfo
  Check :: "Context \<Rightarrow> File \<Rightarrow> check_result"

record PackageInfo =
  Path :: string
  TransitivelyErrorFree :: bool
  Files :: "File list"

record Program =
  AllPackages :: "PackageInfo list"

record linter_filters =
  disableTags :: regex
  disable :: regex
  enableTags :: regex
  enable :: regex

text \<open>What \<^verbatim>\<open>log.Printf\<close> and \<^verbatim>\<open>log.Fatalf\<close> have written, one entry per call.\<close>

datatype log_line =
    DebugLine string string
  | RuleErrorLine string string
  | WarningLine bool string string string
  | FatalLine string

text \<open>
  What a task that has panicked still has to do when it has called \<^verbatim>\<open>wg.Done()\<close>: log
  the checker's name and the error and then panic, or panic.
\<close>

datatype goroutine = Logging string string | Panicking panic_value

text \<open>
  The \<^verbatim>\<open>linter\<close> struct.  Four more components make the effects of a run visible:
  \<open>logged\<close>, the lines written to the log; \<open>analyzed\<close>, the calls of \<^verbatim>\<open>Check\<close> made
  so far (rule name and compilation unit), in the order made; \<open>pending\<close>, the tasks that
  have panicked and called \<^verbatim>\<open>wg.Done()\<close> but have not raised their panic again yet;
  \<open>yields\<close>, the number of times the scheduler has been asked so far.
\<close>

record linter =
  ctx :: Context
  prog :: Program
  checkers :: "Checker list"
  packages :: "string list"
  foundIssues :: bool
  filters :: linter_filters
  pluginPath :: string
  exitCode :: int
  checkTests :: bool
  checkGenerated :: bool
  shorterErrLocation :: bool
  coloredOutput :: bool
  verbose :: bool
  logged :: "log_line list"
  analyzed :: "(string \<times> File) list"
  pending :: "goroutine list"
  yields :: nat

text \<open>
  The collaborators of the linter, which it only calls: the registry of checkers as
  \<^verbatim>\<open>lintpack.GetCheckersInfo()\<close> enumerates it when the checkers are initialised, the rule
  implementations that \<^verbatim>\<open>lintpack.NewChecker\<close> binds to an entry, the plugin loader, the
  source loader, the build environment, and the scheduler of the goroutines: \<open>schedule w k\<close>
  is the number of steps that the pending tasks take, the oldest first, when the scheduler
  is asked for the \<open>k\<close>-th time, before the main goroutine goes on.
\<close>

record world =
  GetCheckersInfo :: "CheckerInfo list"
  rule_impl :: "CheckerInfo \<Rightarrow> Context \<Rightarrow> File \<Rightarrow> check_result"
  CheckersFromDylib :: "string \<Rightarrow> string option"
  SizesFor :: bool
  GOARCH :: string
  FromArgs :: "string list \<Rightarrow> string option"
  Load :: "string list \<Rightarrow> string + Program"
  GOPATH :: string
  GOROOT :: string
  schedule :: "nat \<Rightarrow> nat"

text \<open>
  Modelled from the spec: \<^verbatim>\<open>lintpack.NewChecker\<close> is not among the sources.  It binds the
  rule implementation of an entry to the entry.
\<close>

definition NewChecker :: "world \<Rightarrow> CheckerInfo \<Rightarrow> Checker" where
  "NewChecker w info = \<lparr>Info = info, Check = rule_impl w info\<rparr>"

text \<open>
  How a step of the run ends early: it returns an error, it calls \<^verbatim>\<open>log.Fatalf\<close>, it
  calls \<^verbatim>\<open>os.Exit\<close>, or a panic is not recovered.  A step yields the state it leaves
  behind in either case.
\<close>

datatype abort = Error string | Fatal string | OsExit int | Panic panic_value

type_synonym step_result = "(abort \<times> linter) + linter"

section \<open>Selecting the checkers\<close>

definition matchAnyTag :: "regex \<Rightarrow> CheckerInfo \<Rightarrow> bool" where
  "matchAnyTag re info = list_ex (MatchString re) (Tags info)"

definition disabledByTags :: "linter \<Rightarrow> CheckerInfo \<Rightarrow> bool" where
  "disabledByTags l info =
     (if length (Tags info) = 0 then False
      else matchAnyTag (disableTags (filters l)) info)"

definition enabledByTags :: "linter \<Rightarrow> CheckerInfo \<Rightarrow> bool" where
  "enabledByTags l info =
     (if length (Tags info) = 0 then True
      else matchAnyTag (enableTags (filters l)) info)"

text \<open>The \<^verbatim>\<open>switch\<close> of \<^verbatim>\<open>initCheckers\<close>: whether the entry is enabled, and the notice.\<close>

definition initCheckers_switch :: "linter \<Rightarrow> CheckerInfo \<Rightarrow> bool \<times> string" where
  "initCheckers_switch l info =
     (if disabledByTags l info then (False, ''disabled by tags (-disableTags)'')
      else if MatchString (disable (filters l)) (Name info)
        then (False, ''disabled by name (-disable)'')
      else if enabledByTags l info then (True, ''enabled by tags (-enableTags)'')
      else if MatchString (enable (filters l)) (Name info)
        then (True, ''enabled by name (-enable)'')
      else (False, ''was not enabled''))"

fun initCheckers_loop :: "world \<Rightarrow> CheckerInfo list \<Rightarrow> linter \<Rightarrow> linter" where
  "initCheckers_loop w [] l = l"
| "initCheckers_loop w (info # infos) l =
     (let (enabled, notice) = initCheckers_switch l info;
          l1 = (if verbose l then l\<lparr>logged := logged l @ [DebugLine (Name info) notice]\<rparr> else l);
          l2 = (if enabled then l1\<lparr>checkers := checkers l1 @ [NewChecker w info]\<rparr> else l1)
      in initCheckers_loop w infos l2)"

definition initCheckers :: "world \<Rightarrow> linter \<Rightarrow> step_result" where
  "initCheckers w l =
     (let l' = initCheckers_loop w (GetCheckersInfo w) l
      in if length (checkers l') = 0 then Inl (Error ''empty checkers set selected'', l')
         else Inr l')"

section \<open>Checking files and packages\<close>

definition generatedFileCommentRE :: "regex option" where
  "generatedFileCommentRE = regexp_Compile ''Code generated .* DO NOT EDIT.''"

text \<open>
  \<^verbatim>\<open>regexp.MustCompile\<close> panics when the pattern does not compile; this pattern does
  (lemma \<open>generatedFileCommentRE_compiles\<close>), so the first branch is never taken.
\<close>

definition isGenerated :: "File \<Rightarrow> bool" where
  "isGenerated f =
     (case generatedFileCommentRE of
        None \<Rightarrow> False
      | Some re \<Rightarrow> length (Comments f) \<noteq> 0 \<and> MatchString re (CommentText (Comments f ! 0)))"

text \<open>\<^verbatim>\<open>filepath.Base\<close>, with \<^verbatim>\<open>/\<close> as the separator and no volume names.\<close>

definition filepath_Base :: "string \<Rightarrow> string" where
  "filepath_Base path =
     (if path = [] then ''.''
      else let stripped = rev (dropWhile (\<lambda>c. c = CHR ''/'') (rev path));
               element = rev (takeWhile (\<lambda>c. c \<noteq> CHR ''/'') (rev stripped))
           in if element = [] then ''/'' else element)"

definition getFilename :: "File \<Rightarrow> string" where
  "getFilename f = filepath_Base (PosFilename f)"

definition shortenLocation :: "world \<Rightarrow> string \<Rightarrow> string" where
  "shortenLocation w loc =
     (if prefix (GOPATH w) loc then ''$GOPATH'' @ drop (length (GOPATH w)) loc
      else if prefix (GOROOT w) loc then ''$GOROOT'' @ drop (length (GOROOT w)) loc
      else loc)"

definition printWarning :: "linter \<Rightarrow> string \<Rightarrow> string \<Rightarrow> string \<Rightarrow> linter" where
  "printWarning l rule loc warn =
     l\<lparr>logged := logged l @ [WarningLine (coloredOutput l) loc rule warn]\<rparr>"

text \<open>The body of the loop over the warnings that a checker returned.\<close>

definition reportWarning :: "world \<Rightarrow> Checker \<Rightarrow> linter \<Rightarrow> Warning \<Rightarrow> linter" where
  "reportWarning w c l warn =
     (let l1 = l\<lparr>foundIssues := True\<rparr>;
          loc = Position warn;
          loc' = (if shorterErrLocation l1 then shortenLocation w loc else loc)
      in printWarning l1 (Name (Info c)) loc' (Text warn))"

text \<open>
  The task started for one checker on one file, up to the first statement of its deferred
  function, \<^verbatim>\<open>wg.Done()\<close>.  When \<^verbatim>\<open>Check\<close> has returned, its warnings have been
  reported by then and the deferred function has nothing more to do.  When \<^verbatim>\<open>Check\<close> has
  panicked, \<^verbatim>\<open>wg.Done()\<close> comes before \<^verbatim>\<open>recover()\<close>: if the recovered value is \<^verbatim>\<open>nil\<close> the
  deferred function returns, if it is an error it is still to be logged with the
  checker's name and raised again, and any other value is still to be raised again.
\<close>

definition afterDone :: "world \<Rightarrow> Checker \<Rightarrow> File \<Rightarrow> linter \<Rightarrow> linter" where
  "afterDone w c f l =
     (let l1 = l\<lparr>analyzed := analyzed l @ [(Name (Info c), f)]\<rparr>
      in case Check c (ctx l1) f of
           Returns warns \<Rightarrow> foldl (reportWarning w c) l1 warns
         | Panics NilValue \<Rightarrow> l1
         | Panics (ErrorValue err) \<Rightarrow> l1\<lparr>pending := pending l1 @ [Logging (Name (Info c)) err]\<rparr>
         | Panics (OtherValue r) \<Rightarrow> l1\<lparr>pending := pending l1 @ [Panicking (OtherValue r)]\<rparr>)"

text \<open>
  The pending tasks take \<open>n\<close> steps, the oldest first: a task that is to log writes its
  line and is then to panic; a task that is to panic does, and a panic that leaves a
  goroutine ends the process.
\<close>

fun run_pending :: "nat \<Rightarrow> linter \<Rightarrow> step_result" where
  "run_pending 0 l = Inr l"
| "run_pending (Suc n) l =
     (case pending l of
        [] \<Rightarrow> Inr l
      | Logging name err # gs \<Rightarrow>
          run_pending n (l\<lparr>logged := logged l @ [RuleErrorLine name err],
                           pending := Panicking (ErrorValue err) # gs\<rparr>)
      | Panicking v # gs \<Rightarrow> Inl (Panic v, l))"

text \<open>
  Once a task has called \<^verbatim>\<open>wg.Done()\<close>, the main goroutine no longer waits for it.  The
  scheduler is asked what the pending tasks do before the main goroutine goes on.
\<close>

definition yield :: "world \<Rightarrow> linter \<Rightarrow> step_result" where
  "yield w l = run_pending (schedule w (yields l)) (l\<lparr>yields := yields l + 1\<rparr>)"

definition checkerTask :: "world \<Rightarrow> Checker \<Rightarrow> File \<Rightarrow> linter \<Rightarrow> step_result" where
  "checkerTask w c f l = yield w (afterDone w c f l)"

text \<open>
  \<^verbatim>\<open>checkFile\<close> starts one task per checker and waits until each has called
  \<^verbatim>\<open>wg.Done()\<close>.  The tasks are taken here in the order of \<open>checkers\<close>, each up to its
  \<^verbatim>\<open>wg.Done()\<close>, and the scheduler is asked after each.  These are some of the schedules
  that the source admits: with a schedule of \<open>2\<close> a panic ends the process at once, with
  \<open>0\<close> until later it ends the process during a later task, and with \<open>0\<close> throughout
  the main goroutine reaches the end of \<^verbatim>\<open>Main\<close> or an \<^verbatim>\<open>os.Exit\<close> first and the panic
  never happens.
\<close>

fun checkFile_tasks :: "world \<Rightarrow> Checker list \<Rightarrow> File \<Rightarrow> linter \<Rightarrow> step_result" where
  "checkFile_tasks w [] f l = Inr l"
| "checkFile_tasks w (c # cs) f l =
     (case checkerTask w c f l of
        Inl a \<Rightarrow> Inl a
      | Inr l' \<Rightarrow> checkFile_tasks w cs f l')"

definition checkFile :: "world \<Rightarrow> File \<Rightarrow> linter \<Rightarrow> step_result" where
  "checkFile w f l = checkFile_tasks w (checkers l) f l"

fun checkPackage_files :: "world \<Rightarrow> File list \<Rightarrow> linter \<Rightarrow> step_result" where
  "checkPackage_files w [] l = Inr l"
| "checkPackage_files w (f # fs) l =
     (let filename = getFilename f
      in if \<not> checkTests l \<and> suffix ''_test.go'' filename then checkPackage_files w fs l
         else if \<not> checkGenerated l \<and> isGenerated f then checkPackage_files w fs l
         else case checkFile w f (l\<lparr>ctx := SetFileInfo filename (ctx l)\<rparr>) of
                Inl a \<Rightarrow> Inl a
              | Inr l' \<Rightarrow> checkPackage_files w fs l')"

definition checkPackage :: "world \<Rightarrow> string \<Rightarrow> PackageInfo \<Rightarrow> linter \<Rightarrow> step_result" where
  "checkPackage w pkgPath pkgInfo l =
     checkPackage_files w (Files pkgInfo) (l\<lparr>ctx := SetPackageInfo (Path pkgInfo) (ctx l)\<rparr>)"

definition pkgInfoMap :: "linter \<Rightarrow> string \<rightharpoonup> PackageInfo" where
  "pkgInfoMap l = foldl (\<lambda>m pkgInfo. m(Path pkgInfo \<mapsto> pkgInfo)) Map.empty (AllPackages (prog l))"

fun runCheckers_packages :: "world \<Rightarrow> string list \<Rightarrow> linter \<Rightarrow> step_result" where
  "runCheckers_packages w [] l = Inr l"
| "runCheckers_packages w (pkgPath # rest_paths) l =
     (case pkgInfoMap l pkgPath of
        None \<Rightarrow> Inl (Fatal (pkgPath @ '' package is not properly loaded''), l)
      | Some pkgInfo \<Rightarrow>
          if \<not> TransitivelyErrorFree pkgInfo
          then Inl (Fatal (pkgPath @ '' package is not properly loaded''), l)
          else (case checkPackage w pkgPath pkgInfo l of
                  Inl a \<Rightarrow> Inl a
                | Inr l1 \<Rightarrow>
                    (case pkgInfoMap l1 (pkgPath @ ''_test'') of
                       None \<Rightarrow> runCheckers_packages w rest_paths l1
                     | Some testInfo \<Rightarrow>
                         (case checkPackage w (pkgPath @ ''_test'') testInfo l1 of
                            Inl a \<Rightarrow> Inl a
                          | Inr l2 \<Rightarrow> runCheckers_packages w rest_paths l2))))"

definition runCheckers :: "world \<Rightarrow> linter \<Rightarrow> step_result" where
  "runCheckers w l = runCheckers_packages w (packages l) l"

text \<open>
  The last step.  With \<^verbatim>\<open>os.Exit\<close>, as with the return of \<^verbatim>\<open>Main\<close> that follows when
  \<open>exit\<close> returns, the process ends together with the tasks that are still pending.  A
  run in which one of them panics before that ends as the run in which it takes its steps
  when the scheduler is asked for the last time.
\<close>

definition exit :: "linter \<Rightarrow> step_result" where
  "exit l = (if foundIssues l then Inl (OsExit (exitCode l), l) else Inr l)"

section \<open>Arguments, loading and the steps of a run\<close>

text \<open>The command line after \<^verbatim>\<open>flag.Parse()\<close>: the value of each flag and the arguments.\<close>

record flags =
  flag_pluginPath :: string
  flag_disableTags :: string
  flag_disable :: string
  flag_enableTags :: string
  flag_enable :: string
  flag_exitCode :: int
  flag_checkTests :: bool
  flag_shorterErrLocation :: bool
  flag_coloredOutput :: bool
  flag_verbose :: bool
  flag_Args :: "string list"

text \<open>The flags as they are when the command line sets none of them.\<close>

definition default_flags :: "string list \<Rightarrow> flags" where
  "default_flags args =
     \<lparr>flag_pluginPath = [],
      flag_disableTags = ''^experimental$|^performance$|^opinionated$'',
      flag_disable = ''<none>'',
      flag_enableTags = ''.*'',
      flag_enable = ''.*'',
      flag_exitCode = 1,
      flag_checkTests = True,
      flag_shorterErrLocation = True,
      flag_coloredOutput = True,
      flag_verbose = False,
      flag_Args = args\<rparr>"

definition parseArgs :: "flags \<Rightarrow> linter \<Rightarrow> step_result" where
  "parseArgs fl l =
     (let l0 = l\<lparr>pluginPath := flag_pluginPath fl,
                 exitCode := flag_exitCode fl,
                 checkTests := flag_checkTests fl,
                 shorterErrLocation := flag_shorterErrLocation fl,
                 coloredOutput := flag_coloredOutput fl,
                 verbose := flag_verbose fl,
                 packages := flag_Args fl\<rparr>
      in case regexp_Compile (flag_disableTags fl) of
           None \<Rightarrow> Inl (Error ''-disableTags: error parsing regexp'', l0)
         | Some re1 \<Rightarrow>
        (let l1 = l0\<lparr>filters := (filters l0)\<lparr>disableTags := re1\<rparr>\<rparr>
         in case regexp_Compile (flag_disable fl) of
              None \<Rightarrow> Inl (Error ''-disable: error parsing regexp'', l1)
            | Some re2 \<Rightarrow>
        (let l2 = l1\<lparr>filters := (filters l1)\<lparr>disable := re2\<rparr>\<rparr>
         in case regexp_Compile (flag_enableTags fl) of
              None \<Rightarrow> Inl (Error ''-enableTags: error parsing regexp'', l2)
            | Some re3 \<Rightarrow>
        (let l3 = l2\<lparr>filters := (filters l2)\<lparr>enableTags := re3\<rparr>\<rparr>
         in case regexp_Compile (flag_enable fl) of
              None \<Rightarrow> Inl (Error ''-enable: error parsing regexp'', l3)
            | Some re4 \<Rightarrow> Inr (l3\<lparr>filters := (filters l3)\<lparr>enable := re4\<rparr>\<rparr>)))))"

definition loadProgram :: "world \<Rightarrow> linter \<Rightarrow> step_result" where
  "loadProgram w l =
     (if \<not> SizesFor w then Inl (Error (''can't find sizes info for '' @ GOARCH w), l)
      else case FromArgs w (packages l) of
             Some err \<Rightarrow> Inl (Fatal (''resolve packages: '' @ err), l)
           | None \<Rightarrow>
               (case Load w (packages l) of
                  Inl err \<Rightarrow> Inl (Fatal (''load program: '' @ err), l)
                | Inr p \<Rightarrow> Inr (l\<lparr>prog := p, ctx := NewContext\<rparr>)))"

definition loadPlugin :: "world \<Rightarrow> linter \<Rightarrow> step_result" where
  "loadPlugin w l =
     (case CheckersFromDylib w (pluginPath l) of
        Some err \<Rightarrow> Inl (Error err, l)
      | None \<Rightarrow> Inr l)"

text \<open>
  How the process ends: with the status that \<^verbatim>\<open>os.Exit\<close> was called with (the status of
  a return from \<^verbatim>\<open>main\<close> is 0), or with a panic that nothing recovered.
\<close>

datatype process_end = Exited int | Crashed panic_value

text \<open>
  The loop of \<^verbatim>\<open>Main\<close> over its steps.  An error that a step returns goes to
  \<^verbatim>\<open>log.Fatalf\<close> with the step's name; \<^verbatim>\<open>log.Fatalf\<close> writes its line and exits with
  status 1.  When every step has returned, \<^verbatim>\<open>Main\<close> returns and the process exits with
  status 0.
\<close>

fun run_steps :: "(string \<times> (linter \<Rightarrow> step_result)) list \<Rightarrow> linter \<Rightarrow> process_end \<times> linter" where
  "run_steps [] l = (Exited 0, l)"
| "run_steps ((name, fn) # steps) l =
     (case fn l of
        Inr l' \<Rightarrow> run_steps steps l'
      | Inl (Error err, l') \<Rightarrow>
          (Exited 1, l'\<lparr>logged := logged l' @ [FatalLine (name @ '': '' @ err)]\<rparr>)
      | Inl (Fatal msg, l') \<Rightarrow> (Exited 1, l'\<lparr>logged := logged l' @ [FatalLine msg]\<rparr>)
      | Inl (OsExit code, l') \<Rightarrow> (Exited code, l')
      | Inl (Panic v, l') \<Rightarrow> (Crashed v, l'))"

text \<open>
  The zero value of the struct, \<^verbatim>\<open>var l linter\<close>.  Its four patterns and its program are
  nil pointers in the source; \<open>EmptyMatch\<close> and the empty program stand for them here.
  No step reads them before \<open>parseArgs\<close> and \<open>loadProgram\<close> have assigned them.
\<close>

definition zero_linter :: linter where
  "zero_linter =
     \<lparr>ctx = NewContext, prog = \<lparr>AllPackages = []\<rparr>, checkers = [], packages = [],
      foundIssues = False,
      filters = \<lparr>disableTags = EmptyMatch, disable = EmptyMatch,
                 enableTags = EmptyMatch, enable = EmptyMatch\<rparr>,
      pluginPath = [], exitCode = 0, checkTests = False, checkGenerated = False,
      shorterErrLocation = False, coloredOutput = False, verbose = False,
      logged = [], analyzed = [], pending = [], yields = 0\<rparr>"

definition steps :: "world \<Rightarrow> flags \<Rightarrow> (string \<times> (linter \<Rightarrow> step_result)) list" where
  "steps w fl =
     [(''parse args'', parseArgs fl),
      (''load program'', loadProgram w),
      (''load plugin'', loadPlugin w),
      (''init checkers'', initCheckers w),
      (''run checkers'', runCheckers w),
      (''exit if found issues'', exit)]"

definition Main :: "world \<Rightarrow> flags \<Rightarrow> process_end \<times> linter" where
  "Main w fl = run_steps (steps w fl) zero_linter"

section \<open>Notions used to state the properties\<close>

text \<open>The state that a step leaves behind, whether it returned or not.\<close>

fun state_of :: "step_result \<Rightarrow> linter" where
  "state_of (Inl (a, l)) = l"
| "state_of (Inr l) = l"

fun is_warning :: "log_line \<Rightarrow> bool" where
  "is_warning (WarningLine colored loc rule warn) = True"
| "is_warning other = False"

text \<open>The two conditions under which the loop of \<open>checkPackage\<close> goes on to the next file.\<close>

definition skipped :: "linter \<Rightarrow> File \<Rightarrow> bool" where
  "skipped l f =
     ((\<not> checkTests l \<and> suffix ''_test.go'' (getFilename f)) \<or>
      (\<not> checkGenerated l \<and> isGenerated f))"


text \<open>The calls of \<^verbatim>\<open>Check\<close> that pass every file of a list to every checker of a list.\<close>

definition all_calls :: "Checker list \<Rightarrow> File list \<Rightarrow> (string \<times> File) list" where
  "all_calls cs fs = concat (map (\<lambda>f. map (\<lambda>c. (Name (Info c), f)) cs) fs)"

text \<open>Patterns that are a sequence of literal characters, alone or between \<^verbatim>\<open>^\<close> and \<^verbatim>\<open>$\<close>.\<close>

definition literals :: "string \<Rightarrow> regex \<Rightarrow> regex" where
  "literals cs k = foldr Concat (map Literal cs) k"

definition anchored :: "string \<Rightarrow> regex" where
  "anchored cs = Concat BeginText (literals cs (Concat EndText EmptyMatch))"

text \<open>
  The texts that the pattern \<^verbatim>\<open>Code generated .* DO NOT EDIT.\<close> matches as a whole: the
  two fixed parts with any characters but a newline between them, and one more character
  that is not a newline.
\<close>

definition marker :: "string \<Rightarrow> bool" where
  "marker m =
     (\<exists>mid c. m = ''Code generated '' @ mid @ '' DO NOT EDIT'' @ [c]
        \<and> CHR 0x0A \<notin> set mid \<and> c \<noteq> CHR 0x0A)"

subsection \<open>The selection as the specification words it\<close>

datatype verdict = Enabled | Disabled

text \<open>The four numbered conditions in their order, each with its verdict.\<close>

definition spec_rules :: "linter_filters \<Rightarrow> CheckerInfo \<Rightarrow> (bool \<times> verdict) list" where
  "spec_rules fs e =
     [(Tags e \<noteq> [] \<and> (\<exists>t\<in>set (Tags e). MatchString (disableTags fs) t), Disabled),
      (MatchString (disable fs) (Name e), Disabled),
      (Tags e = [] \<or> (\<exists>t\<in>set (Tags e). MatchString (enableTags fs) t), Enabled),
      (MatchString (enable fs) (Name e), Enabled)]"

text \<open>The first condition that holds decides; when none holds, the entry is disabled.\<close>

fun first_match :: "(bool \<times> verdict) list \<Rightarrow> verdict" where
  "first_match [] = Disabled"
| "first_match ((holds, v) # rules) = (if holds then v else first_match rules)"

definition spec_select :: "linter_filters \<Rightarrow> CheckerInfo \<Rightarrow> verdict" where
  "spec_select fs e = first_match (spec_rules fs e)"

subsection \<open>Skipping as the specification words it\<close>



section \<open>A small world to run\<close>

definition example_registry :: "CheckerInfo list" where
  "example_registry =
     [\<lparr>Name = ''appendAssign'', Tags = []\<rparr>,
      \<lparr>Name = ''ptrToRefParam'', Tags = [''experimental'']\<rparr>]"

definition plain_file :: File where
  "plain_file = \<lparr>PosFilename = ''/go/src/p/a.go'', Comments = []\<rparr>"

definition generated_file :: File where
  "generated_file =
     \<lparr>PosFilename = ''/go/src/p/b.pb.go'',
      Comments = [\<lparr>CommentText = ''Copyright 2018.'' @ [CHR 0x0A] @
                     ''Code generated by protoc-gen-go. DO NOT EDIT.'' @ [CHR 0x0A]\<rparr>]\<rparr>"

definition test_file :: File where
  "test_file = \<lparr>PosFilename = ''/go/src/p/a_test.go'', Comments = []\<rparr>"

definition faulty_file :: File where
  "faulty_file = \<lparr>PosFilename = ''/go/src/p/z.go'', Comments = []\<rparr>"


definition nil_panic_file :: File where
  "nil_panic_file = \<lparr>PosFilename = ''/go/src/p/n.go'', Comments = []\<rparr>"

text \<open>
  Every rule of this world reports one warning on \<open>plain_file\<close>, panics with an error
  on \<open>faulty_file\<close>, panics with \<^verbatim>\<open>nil\<close> on \<open>nil_panic_file\<close> and reports nothing on
  any other file.
\<close>

definition example_rule :: "CheckerInfo \<Rightarrow> Context \<Rightarrow> File \<Rightarrow> check_result" where
  "example_rule info c f =
     (if PosFilename f = ''/go/src/p/a.go''
        then Returns [\<lparr>Position = ''/go/src/p/a.go:3:1'', Text = ''suspicious''\<rparr>]
      else if PosFilename f = ''/go/src/p/z.go'' then Panics (ErrorValue ''boom'')
      else if PosFilename f = ''/go/src/p/n.go'' then Panics NilValue
      else Returns [])"

text \<open>
  The world has one package, \<^verbatim>\<open>p\<close>, with the given files, and a scheduler that lets a
  task that has panicked log and panic at once.
\<close>

definition example_world :: "CheckerInfo list \<Rightarrow> File list \<Rightarrow> world" where
  "example_world registry files =
     \<lparr>GetCheckersInfo = registry,
      rule_impl = example_rule,
      CheckersFromDylib = (\<lambda>path. None),
      SizesFor = True,
      GOARCH = ''amd64'',
      FromArgs = (\<lambda>args. None),
      Load = (\<lambda>args. Inr \<lparr>AllPackages =
                [\<lparr>Path = ''p'', TransitivelyErrorFree = True, Files = files\<rparr>]\<rparr>),
      GOPATH = ''/go'',
      GOROOT = ''/usr/local/go'',
      schedule = (\<lambda>k. 2)\<rparr>"

text \<open>
  The same world with a scheduler that gives the pending tasks \<open>n\<close> steps each time it
  is asked.
\<close>

definition scheduled_world :: "nat \<Rightarrow> CheckerInfo list \<Rightarrow> File list \<Rightarrow> world" where
  "scheduled_world n registry files = (example_world registry files)\<lparr>schedule := (\<lambda>k. n)\<rparr>"


text \<open>A linter with one checker that skips generated files and checks tests.\<close>

definition example_linter :: linter where
  "example_linter =
     zero_linter\<lparr>checkers := [NewChecker (example_world example_registry []) (example_registry ! 0)],
                 checkTests := True\<rparr>"

text \<open>
  Flags that exclude nothing and include the tag \<^verbatim>\<open>performance\<close> and the name
  \<^verbatim>\<open>appendAssign\<close> only.
\<close>

definition narrow_flags :: flags where
  "narrow_flags =
     (default_flags [''p''])\<lparr>flag_disableTags := ''<none>'', flag_enableTags := ''^performance$'',
        flag_enable := ''^appendAssign$''\<rparr>"

text \<open>The default flags with the tag-include pattern set to match \<^verbatim>\<open>experimental\<close>.\<close>

definition experimental_flags :: flags where
  "experimental_flags = (default_flags [''p''])\<lparr>flag_enableTags := ''experimental''\<rparr>"

section \<open>Notions used in the proofs\<close>

text \<open>Whether a step returned, rather than ending the run.\<close>

fun returned :: "step_result \<Rightarrow> bool" where
  "returned (Inr l) = True"
| "returned (Inl a) = False"

text \<open>How a step ended the run, if it did.\<close>

fun abort_of :: "step_result \<Rightarrow> abort option" where
  "abort_of (Inr l) = None"
| "abort_of (Inl (a, l)) = Some a"

text \<open>
  \<open>advances l l'\<close>: from \<open>l\<close> to \<open>l'\<close> the log and the calls of \<^verbatim>\<open>Check\<close> have
  only grown, and \<open>foundIssues\<close> is on in \<open>l'\<close> exactly when it was on in \<open>l\<close> or a
  warning has been logged since.
\<close>

definition advances :: "linter \<Rightarrow> linter \<Rightarrow> bool" where
  "advances l l' =
     (\<exists>lines calls.
        logged l' = logged l @ lines \<and> analyzed l' = analyzed l @ calls \<and>
        foundIssues l' = (foundIssues l \<or> list_ex is_warning lines))"

text \<open>The fields that checking leaves as they are.\<close>

definition same_setup :: "linter \<Rightarrow> linter \<Rightarrow> bool" where
  "same_setup l l' =
     (checkers l' = checkers l \<and> prog l' = prog l \<and> packages l' = packages l \<and>
      exitCode l' = exitCode l \<and> checkTests l' = checkTests l \<and>
      checkGenerated l' = checkGenerated l)"

text \<open>Both together: what every operation of the checking does to the state.\<close>

definition follows :: "linter \<Rightarrow> linter \<Rightarrow> bool" where
  "follows l l' = (advances l l' \<and> same_setup l l')"

text \<open>The line that \<open>reportWarning\<close> logs for a warning.\<close>

definition warning_line :: "world \<Rightarrow> linter \<Rightarrow> Checker \<Rightarrow> Warning \<Rightarrow> log_line" where
  "warning_line w l c warn =
     WarningLine (coloredOutput l)
       (if shorterErrLocation l then shortenLocation w (Position warn) else Position warn)
       (Name (Info c)) (Text warn)"

text \<open>The state of a run when the checkers have been initialised, and when they have run.\<close>

definition before_run :: "world \<Rightarrow> flags \<Rightarrow> linter" where
  "before_run w fl =
     state_of (initCheckers w (state_of (loadPlugin w (state_of (loadProgram w
       (state_of (parseArgs fl zero_linter)))))))"

definition after_run :: "world \<Rightarrow> flags \<Rightarrow> linter" where
  "after_run w fl = state_of (runCheckers w (before_run w fl))"

section \<open>Facts about the patterns\<close>

lemma rest_literals:
  "rest (literals cs k) (b, s) =
     (if prefix cs s then rest k (b \<and> cs = [], drop (length cs) s) else [])"
proof (induction cs arbitrary: b s)
  case Nil
  then show ?case by (simp add: literals_def)
next
  case (Cons c cs)
  have step: "literals (c # cs) k = Concat (Literal c) (literals cs k)"
    by (simp add: literals_def)
  show ?case
  proof (cases s)
    case Nil
    then show ?thesis by (simp add: step)
  next
    case (Cons a as)
    then show ?thesis using Cons.IH [of False as] by (simp add: step)
  qed
qed

lemma search_iff:
  "search re b s = (\<exists>pre post. s = pre @ post \<and> rest re (b \<and> pre = [], post) \<noteq> [])"
proof (induction s arbitrary: b)
  case Nil
  then show ?case by simp
next
  case (Cons c cs)
  have "(\<exists>pre post. c # cs = pre @ post \<and> rest re (b \<and> pre = [], post) \<noteq> []) =
        (rest re (b, c # cs) \<noteq> [] \<or> (\<exists>pre post. cs = pre @ post \<and> rest re (False, post) \<noteq> []))"
    (is "?L = ?R")
  proof
    assume ?L
    then obtain pre post where p: "c # cs = pre @ post" "rest re (b \<and> pre = [], post) \<noteq> []"
      by blast
    show ?R
    proof (cases pre)
      case Nil
      with p show ?thesis by simp
    next
      case (Cons a pre')
      with p have "cs = pre' @ post" "rest re (False, post) \<noteq> []" by simp_all
      then show ?thesis by blast
    qed
  next
    assume ?R
    then show ?L
    proof
      assume "rest re (b, c # cs) \<noteq> []"
      then have "c # cs = [] @ (c # cs) \<and> rest re (b \<and> ([]::string) = [], c # cs) \<noteq> []" by simp
      then show ?L by blast
    next
      assume "\<exists>pre post. cs = pre @ post \<and> rest re (False, post) \<noteq> []"
      then obtain pre post where "cs = pre @ post" "rest re (False, post) \<noteq> []" by blast
      then have "c # cs = (c # pre) @ post \<and> rest re (b \<and> c # pre = [], post) \<noteq> []" by simp
      then show ?L by blast
    qed
  qed
  with Cons.IH [of False] show ?case by simp
qed

lemma rest_Concat_nonempty:
  "rest (Concat r1 r2) x \<noteq> [] \<longleftrightarrow> (\<exists>y\<in>set (rest r1 x). rest r2 y \<noteq> [])"
  by auto

lemma star_from_head: "star_from n step x \<noteq> []"
  by (cases n) simp_all

lemma MatchString_Star: "MatchString (Star r) s"
  by (cases s) (simp_all add: MatchString_def star_from_head)

lemma set_star_any:
  "length s \<le> n \<Longrightarrow>
   set (star_from n (rest AnyCharNotNL) (b, s)) =
     {(b \<and> mid = [], suf) | mid suf. s = mid @ suf \<and> CHR 0x0A \<notin> set mid}"
proof (induction n arbitrary: b s)
  case 0
  then show ?case by auto
next
  case (Suc n)
  show ?case
  proof (cases s)
    case Nil
    then show ?thesis by auto
  next
    case (Cons a as)
    show ?thesis
    proof (cases "a = CHR 0x0A")
      case True
      have "{(b \<and> mid = [], suf) | mid suf. a # as = mid @ suf \<and> CHR 0x0A \<notin> set mid} = {(b, a # as)}"
        using True by (auto simp: Cons_eq_append_conv)
      with True Cons show ?thesis by simp
    next
      case False
      have len: "length as \<le> n" using Suc.prems Cons by simp
      have "{(b \<and> mid = [], suf) | mid suf. a # as = mid @ suf \<and> CHR 0x0A \<notin> set mid} =
            insert (b, a # as) {(False \<and> mid = [], suf) | mid suf. as = mid @ suf \<and> CHR 0x0A \<notin> set mid}"
        using False by (auto simp: Cons_eq_append_conv)
      with False Cons Suc.IH [OF len, of False] show ?thesis by simp
    qed
  qed
qed

lemmas compile_defs = regexp_Compile_def concatenation_def atom_def outside_fragment_def literals_def

lemma generatedFileCommentRE_compiles:
  "generatedFileCommentRE =
     Some (literals ''Code generated ''
            (Concat (Star AnyCharNotNL)
              (literals '' DO NOT EDIT'' (Concat AnyCharNotNL EmptyMatch))))"
  by (simp add: generatedFileCommentRE_def compile_defs)

lemma compile_none:
  "regexp_Compile ''<none>'' = Some (literals ''<none>'' EmptyMatch)"
  by (simp add: compile_defs)

lemma compile_any:
  "regexp_Compile ''.*'' = Some (Concat (Star AnyCharNotNL) EmptyMatch)"
  by (simp add: compile_defs)

lemma compile_risk_tags:
  "regexp_Compile ''^experimental$|^performance$|^opinionated$'' =
     Some (Alternate (anchored ''experimental'')
            (Alternate (anchored ''performance'') (anchored ''opinionated'')))"
  by (simp add: compile_defs anchored_def)

lemma rest_anchored: "rest (anchored cs) (b, s) \<noteq> [] \<longleftrightarrow> b \<and> s = cs"
proof -
  have "prefix cs s \<and> drop (length cs) s = [] \<longleftrightarrow> s = cs"
    by (metis append.right_neutral append_take_drop_id prefix_def prefix_order.order_refl append_eq_conv_conj)
  then show ?thesis
    by (auto simp: anchored_def rest_literals)
qed

lemma MatchString_anchored: "MatchString (anchored cs) s \<longleftrightarrow> s = cs"
  by (auto simp: MatchString_def search_iff rest_anchored)

lemma MatchString_Alternate:
  "MatchString (Alternate r1 r2) s \<longleftrightarrow> MatchString r1 s \<or> MatchString r2 s"
  by (auto simp: MatchString_def search_iff)

lemma MatchString_literals:
  "MatchString (literals cs EmptyMatch) s \<longleftrightarrow> sublist cs s"
proof -
  have "(\<exists>pre post. s = pre @ post \<and> rest (literals cs EmptyMatch) (pre = [], post) \<noteq> [])
          \<longleftrightarrow> (\<exists>ps ss. s = ps @ cs @ ss)"
    by (auto simp: prefix_def rest_literals split: if_splits)
  then show ?thesis
    by (simp add: MatchString_def search_iff sublist_def)
qed

lemma MatchString_any: "MatchString (Concat (Star AnyCharNotNL) EmptyMatch) s"
proof -
  have "rest (Concat (Star AnyCharNotNL) EmptyMatch) (True, s) \<noteq> []"
    unfolding rest_Concat_nonempty
    by (cases "length s") auto
  then show ?thesis
    by (cases s) (simp_all only: MatchString_def search.simps simp_thms)
qed

lemma rest_literals_nonempty:
  "rest (literals cs k) (b, s) \<noteq> [] \<longleftrightarrow> (\<exists>t. s = cs @ t \<and> rest k (b \<and> cs = [], t) \<noteq> [])"
proof (cases "prefix cs s")
  case True
  then obtain t where t: "s = cs @ t" by (auto simp: prefix_def)
  then have "rest (literals cs k) (b, s) = rest k (b \<and> cs = [], t)"
    by (simp add: rest_literals)
  with t show ?thesis by simp
next
  case False
  then have "rest (literals cs k) (b, s) = []" by (simp add: rest_literals)
  moreover have "\<not> (\<exists>t. s = cs @ t)" using False by (simp add: prefix_def)
  ultimately show ?thesis by simp
qed

lemma rest_any_nonempty:
  "rest (Concat AnyCharNotNL EmptyMatch) (b, t) \<noteq> [] \<longleftrightarrow> (\<exists>c post. t = c # post \<and> c \<noteq> CHR 0x0A)"
  by (cases t) simp_all

lemma rest_tail_any:
  "rest (literals B (Concat AnyCharNotNL EmptyMatch)) (b, s) \<noteq> [] \<longleftrightarrow>
     (\<exists>c post. s = B @ c # post \<and> c \<noteq> CHR 0x0A)"
  unfolding rest_literals_nonempty rest_any_nonempty by blast

lemma rest_star_any_then:
  "rest (Concat (Star AnyCharNotNL) k) (b, t) \<noteq> [] \<longleftrightarrow>
     (\<exists>mid suf. t = mid @ suf \<and> CHR 0x0A \<notin> set mid \<and> rest k (b \<and> mid = [], suf) \<noteq> [])"
  (is "?L = ?R")
proof -
  have reach: "set (rest (Star AnyCharNotNL) (b, t)) =
          {(b \<and> mid = [], suf) | mid suf. t = mid @ suf \<and> CHR 0x0A \<notin> set mid}"
    using set_star_any [of t "length t" b] by simp
  show ?thesis
  proof
    assume ?L
    then obtain y where y: "y \<in> set (rest (Star AnyCharNotNL) (b, t))" "rest k y \<noteq> []"
      unfolding rest_Concat_nonempty by blast
    from y(1) obtain mid suf where "y = (b \<and> mid = [], suf)" "t = mid @ suf" "CHR 0x0A \<notin> set mid"
      unfolding reach by blast
    with y(2) show ?R by blast
  next
    assume ?R
    then obtain mid suf where m: "t = mid @ suf" "CHR 0x0A \<notin> set mid"
      "rest k (b \<and> mid = [], suf) \<noteq> []" by blast
    then have "(b \<and> mid = [], suf) \<in> set (rest (Star AnyCharNotNL) (b, t))"
      unfolding reach by blast
    with m(3) show ?L
      unfolding rest_Concat_nonempty by blast
  qed
qed

lemma rest_generated:
  "rest (literals A (Concat (Star AnyCharNotNL) (literals B (Concat AnyCharNotNL EmptyMatch)))) (b, s) \<noteq> []
     \<longleftrightarrow> (\<exists>mid c post. s = A @ mid @ B @ c # post \<and> CHR 0x0A \<notin> set mid \<and> c \<noteq> CHR 0x0A)"
proof -
  let ?K = "literals B (Concat AnyCharNotNL EmptyMatch)"
  have tail: "rest (Concat (Star AnyCharNotNL) ?K) (b', t) \<noteq> [] \<longleftrightarrow>
     (\<exists>mid suf. t = mid @ suf \<and> CHR 0x0A \<notin> set mid \<and> (\<exists>c post. suf = B @ c # post \<and> c \<noteq> CHR 0x0A))"
    for b' t
    by (simp only: rest_star_any_then rest_tail_any)
  have "rest (literals A (Concat (Star AnyCharNotNL) ?K)) (b, s) \<noteq> [] \<longleftrightarrow>
     (\<exists>t. s = A @ t \<and> rest (Concat (Star AnyCharNotNL) ?K) (b \<and> A = [], t) \<noteq> [])"
    by (rule rest_literals_nonempty)
  also have "\<dots> \<longleftrightarrow> (\<exists>t. s = A @ t \<and>
     (\<exists>mid suf. t = mid @ suf \<and> CHR 0x0A \<notin> set mid \<and> (\<exists>c post. suf = B @ c # post \<and> c \<noteq> CHR 0x0A)))"
    by (simp only: tail)
  also have "\<dots> \<longleftrightarrow> (\<exists>mid c post. s = A @ mid @ B @ c # post \<and> CHR 0x0A \<notin> set mid \<and> c \<noteq> CHR 0x0A)"
    by blast
  finally show ?thesis .
qed

lemma MatchString_generated:
  "generatedFileCommentRE = Some re \<Longrightarrow>
   MatchString re s \<longleftrightarrow> (\<exists>pre m post. s = pre @ m @ post \<and> marker m)"
proof -
  assume "generatedFileCommentRE = Some re"
  then have re: "re = literals ''Code generated ''
            (Concat (Star AnyCharNotNL)
              (literals '' DO NOT EDIT'' (Concat AnyCharNotNL EmptyMatch)))"
    by (simp add: generatedFileCommentRE_compiles)
  have "MatchString re s \<longleftrightarrow>
     (\<exists>pre rem. s = pre @ rem \<and> (\<exists>mid c post. rem = ''Code generated '' @ mid @ '' DO NOT EDIT'' @ c # post
          \<and> CHR 0x0A \<notin> set mid \<and> c \<noteq> CHR 0x0A))"
    unfolding MatchString_def search_iff re rest_generated ..
  also have "\<dots> \<longleftrightarrow> (\<exists>pre m post. s = pre @ m @ post \<and> marker m)"
  proof
    assume "\<exists>pre rem. s = pre @ rem \<and> (\<exists>mid c post. rem = ''Code generated '' @ mid @ '' DO NOT EDIT'' @ c # post
          \<and> CHR 0x0A \<notin> set mid \<and> c \<noteq> CHR 0x0A)"
    then obtain pre mid c post where
      s: "s = pre @ ''Code generated '' @ mid @ '' DO NOT EDIT'' @ c # post"
      and ok: "CHR 0x0A \<notin> set mid" "c \<noteq> CHR 0x0A"
      by blast
    have "marker (''Code generated '' @ mid @ '' DO NOT EDIT'' @ [c])"
      unfolding marker_def using ok by blast
    moreover have "s = pre @ (''Code generated '' @ mid @ '' DO NOT EDIT'' @ [c]) @ post"
      using s by simp
    ultimately show "\<exists>pre m post. s = pre @ m @ post \<and> marker m" by blast
  next
    assume "\<exists>pre m post. s = pre @ m @ post \<and> marker m"
    then obtain pre m post mid c where s: "s = pre @ m @ post"
      and m: "m = ''Code generated '' @ mid @ '' DO NOT EDIT'' @ [c]"
      and ok: "CHR 0x0A \<notin> set mid" "c \<noteq> CHR 0x0A"
      unfolding marker_def by blast
    have "s = pre @ (''Code generated '' @ mid @ '' DO NOT EDIT'' @ c # post)"
      using s m by simp
    with ok show "\<exists>pre rem. s = pre @ rem \<and> (\<exists>mid c post. rem = ''Code generated '' @ mid @ '' DO NOT EDIT'' @ c # post
          \<and> CHR 0x0A \<notin> set mid \<and> c \<noteq> CHR 0x0A)"
      by blast
  qed
  finally show ?thesis .
qed

section \<open>The selection\<close>

lemma matchAnyTag_iff:
  "matchAnyTag re info \<longleftrightarrow> (\<exists>t\<in>set (Tags info). MatchString re t)"
  by (simp add: matchAnyTag_def list_ex_iff)

lemma switch_spec:
  "fst (initCheckers_switch l e) \<longleftrightarrow> spec_select (filters l) e = Enabled"
  by (simp add: initCheckers_switch_def disabledByTags_def enabledByTags_def matchAnyTag_iff
      spec_select_def spec_rules_def)

lemma switch_filters:
  "filters l' = filters l \<Longrightarrow> initCheckers_switch l' e = initCheckers_switch l e"
  by (simp add: initCheckers_switch_def disabledByTags_def enabledByTags_def)

lemma loop_filters: "filters (initCheckers_loop w infos l) = filters l"
  by (induction infos arbitrary: l) (simp_all add: Let_def split: prod.splits)

lemma loop_checkers:
  "checkers (initCheckers_loop w infos l) =
     checkers l @ map (NewChecker w) [e \<leftarrow> infos. fst (initCheckers_switch l e)]"
proof (induction infos arbitrary: l)
  case Nil
  then show ?case by simp
next
  case (Cons info infos)
  obtain enabled notice where sw: "initCheckers_switch l info = (enabled, notice)"
    by (cases "initCheckers_switch l info")
  define l1 where "l1 = (if verbose l then l\<lparr>logged := logged l @ [DebugLine (Name info) notice]\<rparr> else l)"
  define l2 where "l2 = (if enabled then l1\<lparr>checkers := checkers l1 @ [NewChecker w info]\<rparr> else l1)"
  have f: "filters l2 = filters l" by (simp add: l1_def l2_def)
  have c: "checkers l2 = checkers l @ (if enabled then [NewChecker w info] else [])"
    by (simp add: l1_def l2_def)
  have "initCheckers_loop w (info # infos) l = initCheckers_loop w infos l2"
    by (simp add: sw l1_def l2_def Let_def)
  then show ?case
    using Cons.IH [of l2] switch_filters [OF f] sw c by simp
qed

text \<open>
  C1.  For every registration entry the switch of \<open>initCheckers\<close> decides as the five
  conditions of the specification do, taken in their order with the first that holds
  deciding, and the loop appends a checker for exactly the entries so enabled, in the
  order of the registry.  In particular an entry with a tag that matches the tag-exclude
  pattern is disabled whatever the name-include pattern matches, and a tagged entry whose
  tags all fail the tag-include pattern and whose name fails the name-include pattern is
  disabled whatever the exclude patterns are.
\<close>

theorem selection_precedence:
  "fst (initCheckers_switch l e) = (spec_select (filters l) e = Enabled)
   \<and> checkers (initCheckers_loop w infos l) =
       checkers l @ map (NewChecker w) [i \<leftarrow> infos. spec_select (filters l) i = Enabled]
   \<and> (Tags e \<noteq> [] \<and> (\<exists>t\<in>set (Tags e). MatchString (disableTags (filters l)) t)
        \<longrightarrow> \<not> fst (initCheckers_switch l e))
   \<and> (Tags e \<noteq> [] \<and> (\<forall>t\<in>set (Tags e). \<not> MatchString (enableTags (filters l)) t)
        \<and> \<not> MatchString (enable (filters l)) (Name e)
        \<longrightarrow> \<not> fst (initCheckers_switch l e))"
proof -
  have "fst (initCheckers_switch l e) = (spec_select (filters l) e = Enabled)"
    by (rule switch_spec)
  moreover have "checkers (initCheckers_loop w infos l) =
       checkers l @ map (NewChecker w) [i \<leftarrow> infos. spec_select (filters l) i = Enabled]"
    by (simp add: loop_checkers switch_spec)
  moreover have "Tags e \<noteq> [] \<and> (\<exists>t\<in>set (Tags e). MatchString (disableTags (filters l)) t)
        \<longrightarrow> \<not> fst (initCheckers_switch l e)"
    by (simp add: initCheckers_switch_def disabledByTags_def matchAnyTag_iff)
  moreover have "Tags e \<noteq> [] \<and> (\<forall>t\<in>set (Tags e). \<not> MatchString (enableTags (filters l)) t)
        \<and> \<not> MatchString (enable (filters l)) (Name e)
        \<longrightarrow> \<not> fst (initCheckers_switch l e)"
    by (simp add: initCheckers_switch_def enabledByTags_def matchAnyTag_iff)
  ultimately show ?thesis by blast
qed

theorem selection_precedence_witness:
  "Tags (example_registry ! 1) \<noteq> []
   \<and> (\<exists>t\<in>set (Tags (example_registry ! 1)).
         MatchString (disableTags (filters (state_of (parseArgs (default_flags []) zero_linter)))) t)
   \<and> MatchString (enable (filters (state_of (parseArgs (default_flags []) zero_linter))))
         (Name (example_registry ! 1))
   \<and> \<not> fst (initCheckers_switch (state_of (parseArgs (default_flags []) zero_linter))
              (example_registry ! 1))
   \<and> map Info (checkers (initCheckers_loop (example_world example_registry [])
         example_registry (state_of (parseArgs (default_flags []) zero_linter))))
       = [example_registry ! 0]
   \<and> \<not> (\<exists>t\<in>set (Tags (example_registry ! 1)).
         MatchString (disableTags (filters (state_of (parseArgs narrow_flags zero_linter)))) t)
   \<and> \<not> MatchString (disable (filters (state_of (parseArgs narrow_flags zero_linter))))
         (Name (example_registry ! 1))
   \<and> \<not> (\<exists>t\<in>set (Tags (example_registry ! 1)).
         MatchString (enableTags (filters (state_of (parseArgs narrow_flags zero_linter)))) t)
   \<and> \<not> MatchString (enable (filters (state_of (parseArgs narrow_flags zero_linter))))
         (Name (example_registry ! 1))
   \<and> \<not> fst (initCheckers_switch (state_of (parseArgs narrow_flags zero_linter))
              (example_registry ! 1))"
proof -
  let ?l = "state_of (parseArgs (default_flags []) zero_linter)"
  let ?e = "example_registry ! 1"
  have tagged: "Tags ?e \<noteq> []" by code_simp
  have excluded: "\<exists>t\<in>set (Tags ?e). MatchString (disableTags (filters ?l)) t" by code_simp
  have named: "MatchString (enable (filters ?l)) (Name ?e)" by code_simp
  have verdicts: "[i \<leftarrow> example_registry. spec_select (filters ?l) i = Enabled] = [example_registry ! 0]"
    by code_simp
  have none: "checkers ?l = []" by code_simp
  note inst = selection_precedence [of ?l ?e "example_world example_registry []" example_registry]
  have off: "\<not> fst (initCheckers_switch ?l ?e)"
    using inst tagged excluded by blast
  have "checkers (initCheckers_loop (example_world example_registry []) example_registry ?l) =
          checkers ?l @ map (NewChecker (example_world example_registry []))
            [i \<leftarrow> example_registry. spec_select (filters ?l) i = Enabled]"
    using inst by blast
  then have "map Info (checkers (initCheckers_loop (example_world example_registry [])
         example_registry ?l)) = [example_registry ! 0]"
    by (simp add: verdicts none NewChecker_def)
  then have first: "Tags ?e \<noteq> []
   \<and> (\<exists>t\<in>set (Tags ?e). MatchString (disableTags (filters ?l)) t)
   \<and> MatchString (enable (filters ?l)) (Name ?e)
   \<and> \<not> fst (initCheckers_switch ?l ?e)
   \<and> map Info (checkers (initCheckers_loop (example_world example_registry [])
         example_registry ?l)) = [example_registry ! 0]"
    using tagged excluded named off by blast
  let ?n = "state_of (parseArgs narrow_flags zero_linter)"
  have n1: "\<not> (\<exists>t\<in>set (Tags ?e). MatchString (disableTags (filters ?n)) t)" by code_simp
  have n2: "\<not> MatchString (disable (filters ?n)) (Name ?e)" by code_simp
  have n3: "\<not> (\<exists>t\<in>set (Tags ?e). MatchString (enableTags (filters ?n)) t)" by code_simp
  have n4: "\<not> MatchString (enable (filters ?n)) (Name ?e)" by code_simp
  have n5: "\<not> fst (initCheckers_switch ?n ?e)"
    using selection_precedence
      [of ?n ?e, THEN conjunct2, THEN conjunct2, THEN conjunct2] tagged n3 n4
    by blast
  from first n1 n2 n3 n4 n5 show ?thesis by blast
qed

text \<open>
  C2.  An entry with zero tags is enabled exactly when its name does not match the
  name-exclude pattern, and neither the tag-include nor the tag-exclude pattern has any
  part in the decision.
\<close>

theorem untagged_enabled_unless_excluded_by_name:
  "Tags e = [] \<Longrightarrow>
     fst (initCheckers_switch l e) = (\<not> MatchString (disable (filters l)) (Name e))
   \<and> fst (initCheckers_switch (l\<lparr>filters := (filters l)\<lparr>enableTags := inc, disableTags := exc\<rparr>\<rparr>) e)
       = fst (initCheckers_switch l e)"
  by (simp add: initCheckers_switch_def disabledByTags_def enabledByTags_def)

theorem untagged_enabled_unless_excluded_by_name_witness:
  "Tags (example_registry ! 0) = []
   \<and> \<not> MatchString (disable (filters (state_of (parseArgs (default_flags []) zero_linter))))
         (Name (example_registry ! 0))
   \<and> fst (initCheckers_switch (state_of (parseArgs (default_flags []) zero_linter))
           (example_registry ! 0))
   \<and> fst (initCheckers_switch
           ((state_of (parseArgs (default_flags []) zero_linter))
              \<lparr>filters := (filters (state_of (parseArgs (default_flags []) zero_linter)))
                 \<lparr>enableTags := anchored ''performance'', disableTags := EmptyMatch\<rparr>\<rparr>)
           (example_registry ! 0))"
proof -
  let ?l = "state_of (parseArgs (default_flags []) zero_linter)"
  let ?e = "example_registry ! 0"
  have untagged: "Tags ?e = []" by code_simp
  have name: "\<not> MatchString (disable (filters ?l)) (Name ?e)" by code_simp
  show ?thesis
    using untagged name
      untagged_enabled_unless_excluded_by_name
        [OF untagged, where l = "?l" and inc = "anchored ''performance''" and exc = EmptyMatch]
    by blast
qed

section \<open>The run\<close>

lemma returned_state: "returned x \<Longrightarrow> x = Inr (state_of x)"
  by (cases x) auto

lemma aborted_state: "abort_of x = Some a \<Longrightarrow> x = Inl (a, state_of x)"
  by (cases x) auto

lemma advances_refl: "advances l l"
  by (simp add: advances_def)

lemma advances_trans: "advances l l' \<Longrightarrow> advances l' l'' \<Longrightarrow> advances l l''"
  unfolding advances_def
proof -
  assume "\<exists>lines calls. logged l' = logged l @ lines \<and> analyzed l' = analyzed l @ calls \<and>
        foundIssues l' = (foundIssues l \<or> list_ex is_warning lines)"
  then obtain n1 c1 where a: "logged l' = logged l @ n1" "analyzed l' = analyzed l @ c1"
    "foundIssues l' = (foundIssues l \<or> list_ex is_warning n1)" by blast
  assume "\<exists>lines calls. logged l'' = logged l' @ lines \<and> analyzed l'' = analyzed l' @ calls \<and>
        foundIssues l'' = (foundIssues l' \<or> list_ex is_warning lines)"
  then obtain n2 c2 where b: "logged l'' = logged l' @ n2" "analyzed l'' = analyzed l' @ c2"
    "foundIssues l'' = (foundIssues l' \<or> list_ex is_warning n2)" by blast
  have "logged l'' = logged l @ (n1 @ n2) \<and> analyzed l'' = analyzed l @ (c1 @ c2) \<and>
        foundIssues l'' = (foundIssues l \<or> list_ex is_warning (n1 @ n2))"
    using a b by (auto simp: list_ex_iff)
  then show "\<exists>lines calls. logged l'' = logged l @ lines \<and> analyzed l'' = analyzed l @ calls \<and>
        foundIssues l'' = (foundIssues l \<or> list_ex is_warning lines)"
    by blast
qed

lemma advances_monotone: "advances l l' \<Longrightarrow> foundIssues l \<Longrightarrow> foundIssues l'"
  by (auto simp: advances_def)

lemma advances_consistent:
  "advances l l' \<Longrightarrow> foundIssues l = list_ex is_warning (logged l) \<Longrightarrow>
   foundIssues l' = list_ex is_warning (logged l')"
  by (auto simp: advances_def list_ex_iff)

lemma same_setup_refl: "same_setup l l"
  by (simp add: same_setup_def)

lemma same_setup_trans: "same_setup l l' \<Longrightarrow> same_setup l' l'' \<Longrightarrow> same_setup l l''"
  by (simp add: same_setup_def)

lemma same_setup_ctx: "same_setup l (l\<lparr>ctx := c\<rparr>)"
  by (simp add: same_setup_def)

lemma advances_ctx: "advances l (l\<lparr>ctx := c\<rparr>)"
  by (simp add: advances_def)


lemma reportWarning_eq:
  "reportWarning w c l warn =
     l\<lparr>foundIssues := True, logged := logged l @ [warning_line w l c warn]\<rparr>"
  by (simp add: reportWarning_def printWarning_def warning_line_def Let_def)

lemma foldl_reportWarning:
  "foldl (reportWarning w c) l warns =
     l\<lparr>foundIssues := foundIssues l \<or> warns \<noteq> [],
       logged := logged l @ map (warning_line w l c) warns\<rparr>"
proof (induction warns arbitrary: l)
  case Nil
  then show ?case by simp
next
  case (Cons a warns)
  have "warning_line w (reportWarning w c l a) c = warning_line w l c"
    by (rule ext) (simp add: reportWarning_eq warning_line_def)
  then show ?case
    by (simp add: Cons.IH) (simp add: reportWarning_eq)
qed

lemma is_warning_line [simp]: "is_warning (warning_line w l c warn)"
  by (simp add: warning_line_def)

lemma follows_refl: "follows l l"
  by (simp add: follows_def advances_refl same_setup_refl)

lemma follows_trans: "follows l l' \<Longrightarrow> follows l' l'' \<Longrightarrow> follows l l''"
  unfolding follows_def using advances_trans same_setup_trans by blast

lemma follows_ctx: "follows l (l\<lparr>ctx := c\<rparr>)"
  by (simp add: follows_def advances_ctx same_setup_ctx)

lemma afterDone_cases:
  obtains (returns) warns where "Check c (ctx l) f = Returns warns"
      and "afterDone w c f l =
             l\<lparr>analyzed := analyzed l @ [(Name (Info c), f)],
               foundIssues := foundIssues l \<or> warns \<noteq> [],
               logged := logged l @ map (warning_line w l c) warns\<rparr>"
  | (nil) "Check c (ctx l) f = Panics NilValue"
      and "afterDone w c f l = l\<lparr>analyzed := analyzed l @ [(Name (Info c), f)]\<rparr>"
  | (error) err where "Check c (ctx l) f = Panics (ErrorValue err)"
      and "afterDone w c f l =
             l\<lparr>analyzed := analyzed l @ [(Name (Info c), f)],
               pending := pending l @ [Logging (Name (Info c)) err]\<rparr>"
  | (other) r where "Check c (ctx l) f = Panics (OtherValue r)"
      and "afterDone w c f l =
             l\<lparr>analyzed := analyzed l @ [(Name (Info c), f)],
               pending := pending l @ [Panicking (OtherValue r)]\<rparr>"
proof (cases "Check c (ctx l) f")
  case (Returns warns)
  then have "afterDone w c f l =
             l\<lparr>analyzed := analyzed l @ [(Name (Info c), f)],
               foundIssues := foundIssues l \<or> warns \<noteq> [],
               logged := logged l @ map (warning_line w l c) warns\<rparr>"
    by (simp add: afterDone_def Let_def foldl_reportWarning warning_line_def)
  with Returns show ?thesis by (rule returns)
next
  case (Panics v)
  show ?thesis
  proof (cases v)
    case NilValue
    with Panics have p: "Check c (ctx l) f = Panics NilValue" by simp
    then have "afterDone w c f l = l\<lparr>analyzed := analyzed l @ [(Name (Info c), f)]\<rparr>"
      by (simp add: afterDone_def Let_def)
    with p show ?thesis by (rule nil)
  next
    case (ErrorValue err)
    with Panics have p: "Check c (ctx l) f = Panics (ErrorValue err)" by simp
    then have "afterDone w c f l =
             l\<lparr>analyzed := analyzed l @ [(Name (Info c), f)],
               pending := pending l @ [Logging (Name (Info c)) err]\<rparr>"
      by (simp add: afterDone_def Let_def)
    with p show ?thesis by (rule error)
  next
    case (OtherValue r)
    with Panics have p: "Check c (ctx l) f = Panics (OtherValue r)" by simp
    then have "afterDone w c f l =
             l\<lparr>analyzed := analyzed l @ [(Name (Info c), f)],
               pending := pending l @ [Panicking (OtherValue r)]\<rparr>"
      by (simp add: afterDone_def Let_def)
    with p show ?thesis by (rule other)
  qed
qed

lemma afterDone_follows: "follows l (afterDone w c f l)"
proof (cases rule: afterDone_cases [of c l f w])
  case (returns warns)
  have "list_ex is_warning (map (warning_line w l c) warns) = (warns \<noteq> [])"
    by (cases warns) (simp_all add: list_ex_iff)
  then show ?thesis
    by (simp add: returns(2) follows_def advances_def same_setup_def)
next
  case nil
  then show ?thesis by (simp add: follows_def advances_def same_setup_def)
next
  case (error err)
  then show ?thesis by (simp add: follows_def advances_def same_setup_def)
next
  case (other r)
  then show ?thesis by (simp add: follows_def advances_def same_setup_def)
qed

lemma afterDone_keeps:
  "ctx (afterDone w c f l) = ctx l \<and>
   analyzed (afterDone w c f l) = analyzed l @ [(Name (Info c), f)] \<and>
   foundIssues (afterDone w c f l) =
     (foundIssues l \<or> (\<exists>warns. Check c (ctx l) f = Returns warns \<and> warns \<noteq> []))"
  by (cases rule: afterDone_cases [of c l f w]) simp_all


lemma run_pending_keeps:
  "ctx (state_of (run_pending n l)) = ctx l \<and>
   analyzed (state_of (run_pending n l)) = analyzed l \<and>
   foundIssues (state_of (run_pending n l)) = foundIssues l \<and>
   same_setup l (state_of (run_pending n l)) \<and>
   (\<exists>lines. logged (state_of (run_pending n l)) = logged l @ lines \<and> \<not> list_ex is_warning lines)"
proof (induction n arbitrary: l)
  case 0
  then show ?case by (simp add: same_setup_refl)
next
  case (Suc n)
  show ?case
  proof (cases "pending l")
    case Nil
    then show ?thesis by (simp add: same_setup_refl)
  next
    case (Cons g gs)
    show ?thesis
    proof (cases g)
      case (Logging name err)
      let ?l1 = "l\<lparr>logged := logged l @ [RuleErrorLine name err],
                    pending := Panicking (ErrorValue err) # gs\<rparr>"
      have step: "run_pending (Suc n) l = run_pending n ?l1"
        using Cons Logging by simp
      obtain lines where lines: "logged (state_of (run_pending n ?l1)) = logged ?l1 @ lines"
        "\<not> list_ex is_warning lines"
        using Suc.IH [of ?l1] by blast
      have "logged (state_of (run_pending n ?l1)) = logged l @ (RuleErrorLine name err # lines)"
        using lines(1) by simp
      moreover have "\<not> list_ex is_warning (RuleErrorLine name err # lines)"
        using lines(2) by simp
      ultimately have "\<exists>lines. logged (state_of (run_pending n ?l1)) = logged l @ lines \<and>
          \<not> list_ex is_warning lines"
        by blast
      moreover have "same_setup l (state_of (run_pending n ?l1))"
        using Suc.IH [of ?l1] by (simp add: same_setup_def)
      ultimately show ?thesis
        unfolding step using Suc.IH [of ?l1] by simp
    next
      case (Panicking v)
      then show ?thesis using Cons by (simp add: same_setup_refl)
    qed
  qed
qed


lemma yield_keeps:
  "ctx (state_of (yield w l)) = ctx l \<and>
   analyzed (state_of (yield w l)) = analyzed l \<and>
   foundIssues (state_of (yield w l)) = foundIssues l \<and>
   same_setup l (state_of (yield w l)) \<and>
   (\<exists>lines. logged (state_of (yield w l)) = logged l @ lines \<and> \<not> list_ex is_warning lines)"
  using run_pending_keeps [of "schedule w (yields l)" "l\<lparr>yields := yields l + 1\<rparr>"]
  by (simp add: yield_def same_setup_def)


lemma yield_follows: "follows l (state_of (yield w l))"
proof -
  obtain lines where "logged (state_of (yield w l)) = logged l @ lines"
    "\<not> list_ex is_warning lines"
    using yield_keeps [of w l] by blast
  then have "logged (state_of (yield w l)) = logged l @ lines \<and>
      analyzed (state_of (yield w l)) = analyzed l @ [] \<and>
      foundIssues (state_of (yield w l)) = (foundIssues l \<or> list_ex is_warning lines)"
    using yield_keeps [of w l] by simp
  then have "advances l (state_of (yield w l))"
    unfolding advances_def by blast
  then show ?thesis
    using yield_keeps [of w l] by (simp add: follows_def)
qed

lemma checkerTask_follows: "follows l (state_of (checkerTask w c f l))"
  unfolding checkerTask_def by (rule follows_trans [OF afterDone_follows yield_follows])

lemma checkerTask_advances: "advances l (state_of (checkerTask w c f l))"
  using checkerTask_follows [of l w c f] by (simp add: follows_def)

lemma checkerTask_same_setup: "same_setup l (state_of (checkerTask w c f l))"
  using checkerTask_follows [of l w c f] by (simp add: follows_def)

lemma checkerTask_ctx: "ctx (state_of (checkerTask w c f l)) = ctx l"
  by (simp add: checkerTask_def yield_keeps afterDone_keeps)


lemma checkerTask_foundIssues:
  "foundIssues (state_of (checkerTask w c f l)) =
     (foundIssues l \<or> (\<exists>warns. Check c (ctx l) f = Returns warns \<and> warns \<noteq> []))"
  by (simp add: checkerTask_def yield_keeps afterDone_keeps)


lemma checkFile_tasks_follows: "follows l (state_of (checkFile_tasks w cs f l))"
proof (induction cs arbitrary: l)
  case Nil
  then show ?case by (simp add: follows_refl)
next
  case (Cons c cs)
  show ?case
  proof (cases "checkerTask w c f l")
    case (Inl a)
    then have "checkFile_tasks w (c # cs) f l = checkerTask w c f l" by simp
    then show ?thesis by (simp add: checkerTask_follows)
  next
    case (Inr l1)
    then have l1: "l1 = state_of (checkerTask w c f l)" by simp
    have step: "follows l l1" unfolding l1 by (rule checkerTask_follows)
    have "checkFile_tasks w (c # cs) f l = checkFile_tasks w cs f l1" using Inr by simp
    then show ?thesis
      using follows_trans [OF step Cons.IH [of l1]] by simp
  qed
qed

lemma checkFile_follows: "follows l (state_of (checkFile w f l))"
  by (simp add: checkFile_def checkFile_tasks_follows)

lemma checkPackage_files_unfold:
  "checkPackage_files w (f # fs) l =
     (if skipped l f then checkPackage_files w fs l
      else case checkFile w f (l\<lparr>ctx := SetFileInfo (getFilename f) (ctx l)\<rparr>) of
             Inl a \<Rightarrow> Inl a
           | Inr l' \<Rightarrow> checkPackage_files w fs l')"
  by (auto simp: skipped_def Let_def)

lemma checkPackage_files_follows: "follows l (state_of (checkPackage_files w fs l))"
proof (induction fs arbitrary: l)
  case Nil
  then show ?case by (simp add: follows_refl)
next
  case (Cons f fs)
  let ?l0 = "l\<lparr>ctx := SetFileInfo (getFilename f) (ctx l)\<rparr>"
  show ?case
  proof (cases "skipped l f")
    case True
    then show ?thesis using Cons.IH [of l] by (simp add: checkPackage_files_unfold del: checkPackage_files.simps)
  next
    case False
    have base: "follows l ?l0" by (rule follows_ctx)
    have unit: "follows l (state_of (checkFile w f ?l0))"
      by (rule follows_trans [OF base checkFile_follows])
    show ?thesis
    proof (cases "checkFile w f ?l0")
      case (Inl a)
      then have "state_of (checkPackage_files w (f # fs) l) = state_of (checkFile w f ?l0)"
        using False by (simp add: checkPackage_files_unfold del: checkPackage_files.simps)
      then show ?thesis using unit by simp
    next
      case (Inr l1)
      then have l1: "l1 = state_of (checkFile w f ?l0)" by simp
      have "checkPackage_files w (f # fs) l = checkPackage_files w fs l1"
        using False Inr by (simp add: checkPackage_files_unfold del: checkPackage_files.simps)
      then show ?thesis
        using follows_trans [OF unit [folded l1] Cons.IH [of l1]] by simp
    qed
  qed
qed

lemma checkPackage_follows: "follows l (state_of (checkPackage w pkgPath pkgInfo l))"
  unfolding checkPackage_def
  by (rule follows_trans [OF follows_ctx checkPackage_files_follows])

lemma pkgInfoMap_same_setup: "same_setup l l' \<Longrightarrow> pkgInfoMap l' = pkgInfoMap l"
  by (simp add: pkgInfoMap_def same_setup_def)

lemma runCheckers_packages_follows: "follows l (state_of (runCheckers_packages w paths l))"
proof (induction paths arbitrary: l)
  case Nil
  then show ?case by (simp add: follows_refl)
next
  case (Cons p paths)
  show ?case
  proof (cases "pkgInfoMap l p")
    case None
    then show ?thesis by (simp add: follows_refl)
  next
    case (Some pkgInfo)
    show ?thesis
    proof (cases "TransitivelyErrorFree pkgInfo")
      case False
      then show ?thesis using Some by (simp add: follows_refl)
    next
      case True
      have one: "follows l (state_of (checkPackage w p pkgInfo l))"
        by (rule checkPackage_follows)
      show ?thesis
      proof (cases "checkPackage w p pkgInfo l")
        case (Inl a)
        then show ?thesis using Some True one by simp
      next
        case (Inr l1)
        then have f1: "follows l l1" using one by simp
        show ?thesis
        proof (cases "pkgInfoMap l1 (p @ ''_test'')")
          case None
          then show ?thesis
            using Some True Inr follows_trans [OF f1 Cons.IH [of l1]] by simp
        next
          case (Some testInfo)
          note test = this
          have two: "follows l (state_of (checkPackage w (p @ ''_test'') testInfo l1))"
            by (rule follows_trans [OF f1 checkPackage_follows])
          show ?thesis
          proof (cases "checkPackage w (p @ ''_test'') testInfo l1")
            case (Inl a)
            then show ?thesis using \<open>pkgInfoMap l p = Some pkgInfo\<close> True Inr test two by simp
          next
            case (Inr l2)
            then have f2: "follows l l2" using two by simp
            show ?thesis
              using \<open>pkgInfoMap l p = Some pkgInfo\<close> True \<open>checkPackage w p pkgInfo l = Inr l1\<close>
                test Inr follows_trans [OF f2 Cons.IH [of l2]] by simp
          qed
        qed
      qed
    qed
  qed
qed

lemma runCheckers_follows: "follows l (state_of (runCheckers w l))"
  by (simp add: runCheckers_def runCheckers_packages_follows)

lemma parseArgs_keeps:
  "logged (state_of (parseArgs fl l)) = logged l \<and>
   analyzed (state_of (parseArgs fl l)) = analyzed l \<and>
   foundIssues (state_of (parseArgs fl l)) = foundIssues l \<and>
   checkers (state_of (parseArgs fl l)) = checkers l"
  by (simp add: parseArgs_def Let_def split: option.splits)

lemma parseArgs_Inr:
  "parseArgs fl l = Inr l' \<Longrightarrow>
     regexp_Compile (flag_disableTags fl) = Some (disableTags (filters l')) \<and>
     regexp_Compile (flag_disable fl) = Some (disable (filters l')) \<and>
     regexp_Compile (flag_enableTags fl) = Some (enableTags (filters l')) \<and>
     regexp_Compile (flag_enable fl) = Some (enable (filters l')) \<and>
     exitCode l' = flag_exitCode fl \<and> checkTests l' = flag_checkTests fl \<and>
     packages l' = flag_Args fl \<and> checkGenerated l' = checkGenerated l"
  by (auto simp: parseArgs_def Let_def split: option.splits)

lemma loadProgram_keeps:
  "logged (state_of (loadProgram w l)) = logged l \<and>
   analyzed (state_of (loadProgram w l)) = analyzed l \<and>
   foundIssues (state_of (loadProgram w l)) = foundIssues l \<and>
   checkers (state_of (loadProgram w l)) = checkers l \<and>
   exitCode (state_of (loadProgram w l)) = exitCode l \<and>
   filters (state_of (loadProgram w l)) = filters l"
  by (simp add: loadProgram_def split: option.splits sum.splits)

lemma loadPlugin_keeps: "state_of (loadPlugin w l) = l"
  by (simp add: loadPlugin_def split: option.splits)

lemma exit_keeps: "state_of (exit l) = l"
  by (simp add: exit_def)

lemma loop_keeps:
  "analyzed (initCheckers_loop w infos l) = analyzed l \<and>
   foundIssues (initCheckers_loop w infos l) = foundIssues l \<and>
   exitCode (initCheckers_loop w infos l) = exitCode l \<and>
   (\<exists>lines. logged (initCheckers_loop w infos l) = logged l @ lines \<and> \<not> list_ex is_warning lines)"
proof (induction infos arbitrary: l)
  case Nil
  then show ?case by simp
next
  case (Cons info infos)
  obtain enabled notice where sw: "initCheckers_switch l info = (enabled, notice)"
    by (cases "initCheckers_switch l info")
  define l1 where "l1 = (if verbose l then l\<lparr>logged := logged l @ [DebugLine (Name info) notice]\<rparr> else l)"
  define l2 where "l2 = (if enabled then l1\<lparr>checkers := checkers l1 @ [NewChecker w info]\<rparr> else l1)"
  have step: "initCheckers_loop w (info # infos) l = initCheckers_loop w infos l2"
    by (simp add: sw l1_def l2_def Let_def)
  have same: "analyzed l2 = analyzed l" "foundIssues l2 = foundIssues l" "exitCode l2 = exitCode l"
    by (simp_all add: l1_def l2_def)
  have log: "logged l2 = logged l @ (if verbose l then [DebugLine (Name info) notice] else [])"
    by (simp add: l1_def l2_def)
  obtain lines where lines: "logged (initCheckers_loop w infos l2) = logged l2 @ lines"
    "\<not> list_ex is_warning lines"
    using Cons.IH [of l2] by blast
  have "logged (initCheckers_loop w infos l2) =
          logged l @ ((if verbose l then [DebugLine (Name info) notice] else []) @ lines)"
    using lines(1) log by simp
  moreover have "\<not> list_ex is_warning ((if verbose l then [DebugLine (Name info) notice] else []) @ lines)"
    using lines(2) by simp
  ultimately have "\<exists>lines. logged (initCheckers_loop w infos l2) = logged l @ lines \<and> \<not> list_ex is_warning lines"
    by blast
  then show ?case
    unfolding step using Cons.IH [of l2] same by simp
qed

lemma initCheckers_state: "state_of (initCheckers w l) = initCheckers_loop w (GetCheckersInfo w) l"
  by (simp add: initCheckers_def Let_def)

lemma parseArgs_advances: "advances l (state_of (parseArgs fl l))"
  by (simp add: advances_def parseArgs_keeps)

lemma loadProgram_advances: "advances l (state_of (loadProgram w l))"
  by (simp add: advances_def loadProgram_keeps)

lemma loadPlugin_advances: "advances l (state_of (loadPlugin w l))"
  by (simp add: loadPlugin_keeps advances_refl)

lemma initCheckers_advances: "advances l (state_of (initCheckers w l))"
proof -
  obtain lines where "logged (initCheckers_loop w (GetCheckersInfo w) l) = logged l @ lines"
    "\<not> list_ex is_warning lines"
    using loop_keeps [of w "GetCheckersInfo w" l] by blast
  then have "logged (state_of (initCheckers w l)) = logged l @ lines \<and>
        analyzed (state_of (initCheckers w l)) = analyzed l @ [] \<and>
        foundIssues (state_of (initCheckers w l)) = (foundIssues l \<or> list_ex is_warning lines)"
    by (simp add: initCheckers_state loop_keeps)
  then show ?thesis unfolding advances_def by blast
qed

lemma runCheckers_advances: "advances l (state_of (runCheckers w l))"
  using runCheckers_follows [of l w] by (simp add: follows_def)

lemma exit_advances: "advances l (state_of (exit l))"
  by (simp add: exit_keeps advances_refl)

lemma advances_fatal: "advances l (l\<lparr>logged := logged l @ [FatalLine msg]\<rparr>)"
  by (simp add: advances_def)

lemma run_steps_advances:
  "\<forall>s\<in>set ss. \<forall>k. advances k (state_of (snd s k)) \<Longrightarrow>
   advances l (snd (run_steps ss l))"
proof (induction ss arbitrary: l)
  case Nil
  then show ?case by (simp add: advances_refl)
next
  case (Cons s ss)
  obtain name fn where s: "s = (name, fn)" by (cases s)
  have here: "advances l (state_of (fn l))"
    using Cons.prems s by simp
  have later: "advances l' (snd (run_steps ss l'))" for l'
    using Cons.IH [of l'] Cons.prems by simp
  show ?case
  proof (cases "fn l")
    case (Inr l')
    then have "advances l l'" using here by simp
    from advances_trans [OF this later [of l']] show ?thesis
      using s Inr by simp
  next
    case (Inl al)
    obtain a l' where al: "al = (a, l')" by (cases al)
    have h: "advances l l'" using here Inl al by simp
    show ?thesis
    proof (cases a)
      case (Error err)
      then show ?thesis
        using s Inl al advances_trans [OF h advances_fatal] by simp
    next
      case (Fatal msg)
      then show ?thesis
        using s Inl al advances_trans [OF h advances_fatal] by simp
    next
      case (OsExit code)
      then show ?thesis using s Inl al h by simp
    next
      case (Panic v)
      then show ?thesis using s Inl al h by simp
    qed
  qed
qed

lemma Main_advances: "advances zero_linter (snd (Main w fl))"
  unfolding Main_def
  by (rule run_steps_advances)
    (simp add: steps_def parseArgs_advances loadProgram_advances loadPlugin_advances
      initCheckers_advances runCheckers_advances exit_advances)

lemma zero_consistent: "foundIssues zero_linter = list_ex is_warning (logged zero_linter)"
  by (simp add: zero_linter_def)

lemma run_to_exit:
  assumes "parseArgs fl zero_linter = Inr l1" "loadProgram w l1 = Inr l2"
    "loadPlugin w l2 = Inr l3" "initCheckers w l3 = Inr l4" "runCheckers w l4 = Inr l5"
  shows "Main w fl = run_steps [(''exit if found issues'', exit)] l5"
    and "foundIssues l5 = list_ex is_warning (logged l5)"
    and "exitCode l5 = flag_exitCode fl"
    and "advances zero_linter l4" and "same_setup l4 l5"
proof -
  show "Main w fl = run_steps [(''exit if found issues'', exit)] l5"
    using assms by (simp add: Main_def steps_def)
  have a1: "advances zero_linter l1" using parseArgs_advances [of zero_linter fl] assms(1) by simp
  have a2: "advances l1 l2" using loadProgram_advances [of l1 w] assms(2) by simp
  have a3: "advances l2 l3" using loadPlugin_advances [of l2 w] assms(3) by simp
  have a4: "advances l3 l4" using initCheckers_advances [of l3 w] assms(4) by simp
  have a5: "advances l4 l5" using runCheckers_advances [of l4 w] assms(5) by simp
  show a04: "advances zero_linter l4"
    by (rule advances_trans [OF advances_trans [OF advances_trans [OF a1 a2] a3] a4])
  show "foundIssues l5 = list_ex is_warning (logged l5)"
    by (rule advances_consistent [OF advances_trans [OF a04 a5] zero_consistent])
  show s45: "same_setup l4 l5"
    using runCheckers_follows [of l4 w] assms(5) by (simp add: follows_def)
  have "exitCode l1 = flag_exitCode fl" using parseArgs_Inr [OF assms(1)] by simp
  moreover have "exitCode l2 = exitCode l1" using loadProgram_keeps [of w l1] assms(2) by simp
  moreover have "l3 = l2" using loadPlugin_keeps [of w l2] assms(3) by simp
  moreover have "exitCode l4 = exitCode l3"
    using loop_keeps [of w "GetCheckersInfo w" l3] initCheckers_state [of w l3] assms(4) by simp
  moreover have "exitCode l5 = exitCode l4" using s45 by (simp add: same_setup_def)
  ultimately show "exitCode l5 = flag_exitCode fl" by simp
qed

lemma before_run_clean:
  assumes "parseArgs fl zero_linter = Inr l1" "loadProgram w l1 = Inr l2"
    "loadPlugin w l2 = Inr l3"
  shows "checkers l3 = []" and "analyzed l3 = []" and "logged l3 = []"
    and "\<not> foundIssues l3"
    and "analyzed (state_of (initCheckers w l3)) = []"
    and "\<not> foundIssues (state_of (initCheckers w l3))"
    and "\<not> list_ex is_warning (logged (state_of (initCheckers w l3)))"
proof -
  have k1: "checkers l1 = [] \<and> analyzed l1 = [] \<and> logged l1 = [] \<and> \<not> foundIssues l1"
    using parseArgs_keeps [of fl zero_linter] assms(1) by (simp add: zero_linter_def)
  have k2: "checkers l2 = [] \<and> analyzed l2 = [] \<and> logged l2 = [] \<and> \<not> foundIssues l2"
    using loadProgram_keeps [of w l1] assms(2) k1 by simp
  have "l3 = l2" using loadPlugin_keeps [of w l2] assms(3) by simp
  with k2 show k3: "checkers l3 = []" "analyzed l3 = []" "logged l3 = []" "\<not> foundIssues l3"
    by simp_all
  obtain lines where lines: "logged (initCheckers_loop w (GetCheckersInfo w) l3) = logged l3 @ lines"
    "\<not> list_ex is_warning lines"
    using loop_keeps [of w "GetCheckersInfo w" l3] by blast
  show "analyzed (state_of (initCheckers w l3)) = []"
    using k3 by (simp add: initCheckers_state loop_keeps)
  show "\<not> foundIssues (state_of (initCheckers w l3))"
    using k3 by (simp add: initCheckers_state loop_keeps)
  show "\<not> list_ex is_warning (logged (state_of (initCheckers w l3)))"
    using lines k3 by (simp add: initCheckers_state)
qed








lemma checkPackage_advances: "advances l (state_of (checkPackage w pkgPath pkgInfo l))"
  using checkPackage_follows [of l w pkgPath pkgInfo] by (simp add: follows_def)

lemma checkFile_advances: "advances l (state_of (checkFile w f l))"
  using checkFile_follows [of l w f] by (simp add: follows_def)

text \<open>
  C10.  The flag \<open>foundIssues\<close> is off in the zero value of the linter, the loop over
  the warnings of a checker assigns it \<open>True\<close>, and no operation of a run turns it off
  again: it is on after a task exactly when it was on before or the checker returned a
  warning, and on at the end of \<open>Main\<close> exactly when a warning has been logged.  So when
  a run reaches its last step, \<open>exit\<close> ends the process with \<open>exitCode\<close> exactly when at
  least one warning was logged during the run.
\<close>

theorem foundIssues_monotone:
  "\<not> foundIssues zero_linter
   \<and> foundIssues (reportWarning w c l warn)
   \<and> (foundIssues l \<longrightarrow>
        foundIssues (state_of (parseArgs fl l)) \<and> foundIssues (state_of (loadProgram w l)) \<and>
        foundIssues (state_of (loadPlugin w l)) \<and> foundIssues (state_of (initCheckers w l)) \<and>
        foundIssues (state_of (runCheckers w l)) \<and> foundIssues (state_of (exit l)) \<and>
        foundIssues (state_of (checkPackage w pkgPath pkgInfo l)) \<and>
        foundIssues (state_of (checkFile w f l)) \<and>
        foundIssues (state_of (checkerTask w c f l)))
   \<and> foundIssues (state_of (checkerTask w c f l)) =
        (foundIssues l \<or> (\<exists>warns. Check c (ctx l) f = Returns warns \<and> warns \<noteq> []))
   \<and> foundIssues (snd (Main w fl)) = list_ex is_warning (logged (snd (Main w fl)))
   \<and> (parseArgs fl zero_linter = Inr l1 \<and> loadProgram w l1 = Inr l2 \<and> loadPlugin w l2 = Inr l3 \<and>
      initCheckers w l3 = Inr l4 \<and> runCheckers w l4 = Inr l5 \<longrightarrow>
        exit l5 = (if list_ex is_warning (logged l5) then Inl (OsExit (exitCode l5), l5) else Inr l5))"
proof -
  have zero: "\<not> foundIssues zero_linter" by (simp add: zero_linter_def)
  have assign: "foundIssues (reportWarning w c l warn)" by (simp add: reportWarning_eq)
  have mono: "foundIssues l \<longrightarrow>
        foundIssues (state_of (parseArgs fl l)) \<and> foundIssues (state_of (loadProgram w l)) \<and>
        foundIssues (state_of (loadPlugin w l)) \<and> foundIssues (state_of (initCheckers w l)) \<and>
        foundIssues (state_of (runCheckers w l)) \<and> foundIssues (state_of (exit l)) \<and>
        foundIssues (state_of (checkPackage w pkgPath pkgInfo l)) \<and>
        foundIssues (state_of (checkFile w f l)) \<and>
        foundIssues (state_of (checkerTask w c f l))"
  proof
    assume on: "foundIssues l"
    show "foundIssues (state_of (parseArgs fl l)) \<and> foundIssues (state_of (loadProgram w l)) \<and>
        foundIssues (state_of (loadPlugin w l)) \<and> foundIssues (state_of (initCheckers w l)) \<and>
        foundIssues (state_of (runCheckers w l)) \<and> foundIssues (state_of (exit l)) \<and>
        foundIssues (state_of (checkPackage w pkgPath pkgInfo l)) \<and>
        foundIssues (state_of (checkFile w f l)) \<and>
        foundIssues (state_of (checkerTask w c f l))"
      by (intro conjI advances_monotone [OF _ on] parseArgs_advances loadProgram_advances
          loadPlugin_advances initCheckers_advances runCheckers_advances exit_advances
          checkPackage_advances checkFile_advances checkerTask_advances)
  qed
  have task: "foundIssues (state_of (checkerTask w c f l)) =
        (foundIssues l \<or> (\<exists>warns. Check c (ctx l) f = Returns warns \<and> warns \<noteq> []))"
    by (rule checkerTask_foundIssues)
  have final: "foundIssues (snd (Main w fl)) = list_ex is_warning (logged (snd (Main w fl)))"
    by (rule advances_consistent [OF Main_advances zero_consistent])
  have decision: "parseArgs fl zero_linter = Inr l1 \<and> loadProgram w l1 = Inr l2 \<and> loadPlugin w l2 = Inr l3 \<and>
      initCheckers w l3 = Inr l4 \<and> runCheckers w l4 = Inr l5 \<longrightarrow>
        exit l5 = (if list_ex is_warning (logged l5) then Inl (OsExit (exitCode l5), l5) else Inr l5)"
  proof
    assume run: "parseArgs fl zero_linter = Inr l1 \<and> loadProgram w l1 = Inr l2 \<and> loadPlugin w l2 = Inr l3 \<and>
      initCheckers w l3 = Inr l4 \<and> runCheckers w l4 = Inr l5"
    then have "foundIssues l5 = list_ex is_warning (logged l5)"
      using run_to_exit(2) by blast
    then show "exit l5 = (if list_ex is_warning (logged l5) then Inl (OsExit (exitCode l5), l5) else Inr l5)"
      by (simp add: exit_def)
  qed
  show ?thesis
    by (intro conjI) (rule zero assign mono task final decision)+
qed

theorem foundIssues_monotone_witness:
  "foundIssues (state_of (checkerTask (example_world example_registry []) (checkers example_linter ! 0)
       plain_file example_linter))
   \<and> foundIssues (state_of (checkFile (example_world example_registry []) test_file
       (state_of (checkerTask (example_world example_registry []) (checkers example_linter ! 0)
          plain_file example_linter))))
   \<and> foundIssues (state_of (exit
       (state_of (checkerTask (example_world example_registry []) (checkers example_linter ! 0)
          plain_file example_linter))))
   \<and> runCheckers (example_world example_registry [plain_file, test_file])
        (before_run (example_world example_registry [plain_file, test_file]) (default_flags [''p'']))
       = Inr (after_run (example_world example_registry [plain_file, test_file])
                (default_flags [''p'']))
   \<and> list_ex is_warning
        (logged (after_run (example_world example_registry [plain_file, test_file])
                   (default_flags [''p''])))
   \<and> exit (after_run (example_world example_registry [plain_file, test_file])
               (default_flags [''p'']))
       = Inl (OsExit
                (exitCode (after_run (example_world example_registry [plain_file, test_file])
                             (default_flags [''p'']))),
              after_run (example_world example_registry [plain_file, test_file])
                (default_flags [''p'']))"
proof -
  let ?w = "example_world example_registry []"
  let ?c = "checkers example_linter ! 0"
  let ?l1 = "state_of (checkerTask ?w ?c plain_file example_linter)"
  have "\<exists>warns. Check ?c (ctx example_linter) plain_file = Returns warns \<and> warns \<noteq> []"
    by (simp add: example_linter_def NewChecker_def example_world_def example_rule_def plain_file_def)
  then have on: "foundIssues ?l1"
    using foundIssues_monotone
      [where l = example_linter and w = "?w" and c = "?c" and f = plain_file,
        THEN conjunct2, THEN conjunct2, THEN conjunct2, THEN conjunct1]
    by simp
  have tasks: "foundIssues ?l1 \<and> foundIssues (state_of (checkFile ?w test_file ?l1))
      \<and> foundIssues (state_of (exit ?l1))"
    using on foundIssues_monotone
      [where l = "?l1" and w = "?w" and f = test_file,
        THEN conjunct2, THEN conjunct2, THEN conjunct1]
    by simp
  let ?v = "example_world example_registry [plain_file, test_file]"
  let ?fl = "default_flags [''p'']"
  let ?s1 = "state_of (parseArgs ?fl zero_linter)"
  let ?s2 = "state_of (loadProgram ?v ?s1)"
  let ?s3 = "state_of (loadPlugin ?v ?s2)"
  let ?s4 = "state_of (initCheckers ?v ?s3)"
  let ?s5 = "state_of (runCheckers ?v ?s4)"
  have "returned (parseArgs ?fl zero_linter)" by code_simp
  then have s1: "parseArgs ?fl zero_linter = Inr ?s1" by (rule returned_state)
  have "returned (loadProgram ?v ?s1)" by code_simp
  then have s2: "loadProgram ?v ?s1 = Inr ?s2" by (rule returned_state)
  have "returned (loadPlugin ?v ?s2)" by code_simp
  then have s3: "loadPlugin ?v ?s2 = Inr ?s3" by (rule returned_state)
  have "returned (initCheckers ?v ?s3)" by code_simp
  then have s4: "initCheckers ?v ?s3 = Inr ?s4" by (rule returned_state)
  have "returned (runCheckers ?v ?s4)" by code_simp
  then have s5: "runCheckers ?v ?s4 = Inr ?s5" by (rule returned_state)
  have warned: "list_ex is_warning (logged ?s5)" by code_simp
  have "exit ?s5 =
      (if list_ex is_warning (logged ?s5) then Inl (OsExit (exitCode ?s5), ?s5) else Inr ?s5)"
    using foundIssues_monotone
      [where w = "?v" and fl = "?fl" and ?l1.0 = "?s1" and ?l2.0 = "?s2" and ?l3.0 = "?s3"
         and ?l4.0 = "?s4" and ?l5.0 = "?s5",
        THEN conjunct2, THEN conjunct2, THEN conjunct2, THEN conjunct2, THEN conjunct2]
      s1 s2 s3 s4 s5
    by blast
  then have decision: "exit ?s5 = Inl (OsExit (exitCode ?s5), ?s5)"
    using warned by simp
  show ?thesis
    using tasks s5 warned decision
    unfolding before_run_def after_run_def by blast
qed

section \<open>The end of a run\<close>





lemma initCheckers_empty:
  assumes "checkers l = []" and "[e \<leftarrow> GetCheckersInfo w. fst (initCheckers_switch l e)] = []"
  shows "initCheckers w l =
           Inl (Error ''empty checkers set selected'', initCheckers_loop w (GetCheckersInfo w) l)"
proof -
  have "checkers (initCheckers_loop w (GetCheckersInfo w) l) = []"
    using assms by (simp add: loop_checkers)
  then show ?thesis by (simp add: initCheckers_def Let_def)
qed

text \<open>
  C5.  When the steps before it have returned and the selection enables no entry of the
  registry, \<open>initCheckers\<close> returns the error \<^verbatim>\<open>empty checkers set selected\<close>; \<open>Main\<close>
  passes it to \<^verbatim>\<open>log.Fatalf\<close>, so the process exits with status 1, and no call of
  \<^verbatim>\<open>Check\<close> has been made.
\<close>

theorem empty_selection_is_fatal:
  assumes "parseArgs fl zero_linter = Inr l1" and "loadProgram w l1 = Inr l2"
    and "loadPlugin w l2 = Inr l3"
    and "[e \<leftarrow> GetCheckersInfo w. fst (initCheckers_switch l3 e)] = []"
  shows "(\<exists>l'. initCheckers w l3 = Inl (Error ''empty checkers set selected'', l'))
       \<and> fst (Main w fl) = Exited 1
       \<and> analyzed (snd (Main w fl)) = []
       \<and> last (logged (snd (Main w fl))) =
           FatalLine ''init checkers: empty checkers set selected''"
proof -
  let ?l' = "initCheckers_loop w (GetCheckersInfo w) l3"
  have none: "checkers l3 = []" by (rule before_run_clean(1) [OF assms(1,2,3)])
  have init: "initCheckers w l3 = Inl (Error ''empty checkers set selected'', ?l')"
    by (rule initCheckers_empty [OF none assms(4)])
  have "analyzed (state_of (initCheckers w l3)) = []"
    by (rule before_run_clean(5) [OF assms(1,2,3)])
  then have calls: "analyzed ?l' = []" using init by simp
  have "Main w fl =
          (Exited 1, ?l'\<lparr>logged := logged ?l' @
             [FatalLine (''init checkers'' @ '': '' @ ''empty checkers set selected'')]\<rparr>)"
    using assms(1,2,3) init by (simp add: Main_def steps_def)
  then show ?thesis using init calls by simp
qed

theorem empty_selection_is_fatal_witness:
  "[e \<leftarrow> GetCheckersInfo (example_world [example_registry ! 1] [plain_file]).
      fst (initCheckers_switch
            (state_of (loadPlugin (example_world [example_registry ! 1] [plain_file])
              (state_of (loadProgram (example_world [example_registry ! 1] [plain_file])
                (state_of (parseArgs (default_flags [''p'']) zero_linter)))))) e)] = []
   \<and> fst (Main (example_world [example_registry ! 1] [plain_file]) (default_flags [''p'']))
       = Exited 1
   \<and> analyzed (snd (Main (example_world [example_registry ! 1] [plain_file])
       (default_flags [''p'']))) = []"
proof -
  let ?w = "example_world [example_registry ! 1] [plain_file]"
  let ?fl = "default_flags [''p'']"
  let ?l1 = "state_of (parseArgs ?fl zero_linter)"
  let ?l2 = "state_of (loadProgram ?w ?l1)"
  let ?l3 = "state_of (loadPlugin ?w ?l2)"
  have "returned (parseArgs ?fl zero_linter)" by code_simp
  then have s1: "parseArgs ?fl zero_linter = Inr ?l1" by (rule returned_state)
  have "returned (loadProgram ?w ?l1)" by code_simp
  then have s2: "loadProgram ?w ?l1 = Inr ?l2" by (rule returned_state)
  have "returned (loadPlugin ?w ?l2)" by code_simp
  then have s3: "loadPlugin ?w ?l2 = Inr ?l3" by (rule returned_state)
  have none: "[e \<leftarrow> GetCheckersInfo ?w. fst (initCheckers_switch ?l3 e)] = []"
    by code_simp
  show ?thesis
    using none empty_selection_is_fatal [OF s1 s2 s3 none] by simp
qed

text \<open>
  C8.  The rule \<open>appendAssign\<close> panics with the error \<^verbatim>\<open>boom\<close> on the only file of the
  only package.  When the scheduler lets the main goroutine go on once the task has
  called \<^verbatim>\<open>wg.Done()\<close>, \<^verbatim>\<open>Main\<close> returns and the process exits with status 0: the
  call has been made, nothing has been logged and the panic has not been raised again.
  When the task gets one step, the error is logged with the rule's name and the process
  still exits with status 0.  With a first file that a rule reports on, the process
  exits with the configured exit code instead.  Only when the task gets its two steps
  before the main goroutine goes on does the process end with the panic.  A panic with
  \<^verbatim>\<open>nil\<close> is not raised again even then.
\<close>

theorem rule_fault_swallowed:
  "example_rule (example_registry ! 0) NewContext faulty_file = Panics (ErrorValue ''boom'')
   \<and> analyzed (snd (Main (scheduled_world 0 example_registry [faulty_file])
                      (default_flags [''p''])))
       = [(''appendAssign'', faulty_file)]
   \<and> logged (snd (Main (scheduled_world 0 example_registry [faulty_file])
                    (default_flags [''p'']))) = []
   \<and> fst (Main (scheduled_world 0 example_registry [faulty_file]) (default_flags [''p'']))
       = Exited 0
   \<and> logged (snd (Main (scheduled_world 1 example_registry [faulty_file])
                    (default_flags [''p''])))
       = [RuleErrorLine ''appendAssign'' ''boom'']
   \<and> fst (Main (scheduled_world 1 example_registry [faulty_file]) (default_flags [''p'']))
       = Exited 0
   \<and> fst (Main (scheduled_world 0 example_registry [plain_file, faulty_file])
            (default_flags [''p'']))
       = Exited 1
   \<and> logged (snd (Main (scheduled_world 2 example_registry [faulty_file])
                    (default_flags [''p''])))
       = [RuleErrorLine ''appendAssign'' ''boom'']
   \<and> fst (Main (scheduled_world 2 example_registry [faulty_file]) (default_flags [''p'']))
       = Crashed (ErrorValue ''boom'')
   \<and> example_rule (example_registry ! 0) NewContext nil_panic_file = Panics NilValue
   \<and> analyzed (snd (Main (scheduled_world 2 example_registry [nil_panic_file])
                      (default_flags [''p''])))
       = [(''appendAssign'', nil_panic_file)]
   \<and> logged (snd (Main (scheduled_world 2 example_registry [nil_panic_file])
                    (default_flags [''p'']))) = []
   \<and> fst (Main (scheduled_world 2 example_registry [nil_panic_file]) (default_flags [''p'']))
       = Exited 0"
  by code_simp

section \<open>Generated files and skipped files\<close>

lemma isGenerated_iff:
  "isGenerated f \<longleftrightarrow>
     Comments f \<noteq> [] \<and>
     (\<exists>pre m post. CommentText (Comments f ! 0) = pre @ m @ post \<and> marker m)"
proof -
  obtain re where re: "generatedFileCommentRE = Some re"
    using generatedFileCommentRE_compiles by blast
  show ?thesis
    by (simp add: isGenerated_def re MatchString_generated [OF re])
qed

text \<open>
  C9.  \<open>isGenerated\<close> is false for a file without comments.  For a file with comments
  it depends on the first comment group only, and it holds exactly when the text of that
  group contains, at any place, a text that the pattern \<^verbatim>\<open>Code generated .* DO NOT EDIT.\<close>
  matches: the place need not be the start of the group.
\<close>

theorem isGenerated_first_group_anywhere:
  "(Comments f = [] \<longrightarrow> \<not> isGenerated f)
   \<and> (Comments f \<noteq> [] \<and> Comments f' \<noteq> [] \<and> Comments f ! 0 = Comments f' ! 0 \<longrightarrow>
        isGenerated f = isGenerated f')
   \<and> generatedFileCommentRE = regexp_Compile ''Code generated .* DO NOT EDIT.''
   \<and> isGenerated f =
        (Comments f \<noteq> [] \<and>
         (\<exists>re. generatedFileCommentRE = Some re \<and> MatchString re (CommentText (Comments f ! 0))))
   \<and> isGenerated f =
        (Comments f \<noteq> [] \<and>
         (\<exists>pre m post. CommentText (Comments f ! 0) = pre @ m @ post \<and> marker m))"
proof -
  obtain re where re: "generatedFileCommentRE = Some re"
    using generatedFileCommentRE_compiles by blast
  have none: "Comments f = [] \<longrightarrow> \<not> isGenerated f"
    by (simp add: isGenerated_iff)
  have first: "Comments f \<noteq> [] \<and> Comments f' \<noteq> [] \<and> Comments f ! 0 = Comments f' ! 0 \<longrightarrow>
        isGenerated f = isGenerated f'"
    by (simp add: isGenerated_iff)
  have pattern: "generatedFileCommentRE = regexp_Compile ''Code generated .* DO NOT EDIT.''"
    by (rule generatedFileCommentRE_def)
  have matches: "isGenerated f =
        (Comments f \<noteq> [] \<and>
         (\<exists>re. generatedFileCommentRE = Some re \<and> MatchString re (CommentText (Comments f ! 0))))"
    by (simp add: isGenerated_def re)
  have anywhere: "isGenerated f =
        (Comments f \<noteq> [] \<and>
         (\<exists>pre m post. CommentText (Comments f ! 0) = pre @ m @ post \<and> marker m))"
    by (rule isGenerated_iff)
  show ?thesis
    by (intro conjI) (rule none first pattern matches anywhere)+
qed

theorem isGenerated_first_group_anywhere_witness:
  "Comments generated_file \<noteq> []
   \<and> CommentText (Comments generated_file ! 0) =
       (''Copyright 2018.'' @ [CHR 0x0A]) @ ''Code generated by protoc-gen-go. DO NOT EDIT.'' @
       [CHR 0x0A]
   \<and> marker ''Code generated by protoc-gen-go. DO NOT EDIT.''
   \<and> isGenerated generated_file
   \<and> \<not> isGenerated plain_file"
proof -
  have comments: "Comments generated_file \<noteq> []" by (simp add: generated_file_def)
  have group: "CommentText (Comments generated_file ! 0) =
       (''Copyright 2018.'' @ [CHR 0x0A]) @ ''Code generated by protoc-gen-go. DO NOT EDIT.'' @
       [CHR 0x0A]"
    by (simp add: generated_file_def)
  have m: "marker ''Code generated by protoc-gen-go. DO NOT EDIT.''"
    unfolding marker_def
    by (rule exI [of _ "''by protoc-gen-go.''"], rule exI [of _ "CHR ''.''"]) simp
  have "\<exists>pre m post. CommentText (Comments generated_file ! 0) = pre @ m @ post \<and> marker m"
    using group m by blast
  then have yes: "isGenerated generated_file"
    using comments isGenerated_first_group_anywhere
      [of generated_file generated_file, THEN conjunct2, THEN conjunct2, THEN conjunct2,
        THEN conjunct2]
    by blast
  have "Comments plain_file = []" by (simp add: plain_file_def)
  then have no: "\<not> isGenerated plain_file"
    using isGenerated_first_group_anywhere [of plain_file plain_file, THEN conjunct1] by simp
  from comments group m yes no show ?thesis by simp
qed


lemma all_calls_Cons:
  "all_calls cs (f # fs) = map (\<lambda>c. (Name (Info c), f)) cs @ all_calls cs fs"
  by (simp add: all_calls_def)









section \<open>The default patterns\<close>

lemma MatchString_risk_tags:
  "MatchString (Alternate (anchored a) (Alternate (anchored b) (anchored c))) t \<longleftrightarrow>
     t = a \<or> t = b \<or> t = c"
  by (simp add: MatchString_Alternate MatchString_anchored)

lemma parseArgs_default:
  "\<exists>l'. parseArgs (default_flags args) l = Inr l'"
  by (simp add: parseArgs_def default_flags_def compile_risk_tags compile_none compile_any Let_def)

lemma default_filters:
  assumes "parseArgs fl l = Inr l'"
  shows "flag_disableTags fl = flag_disableTags (default_flags args) \<Longrightarrow>
           disableTags (filters l') =
             Alternate (anchored ''experimental'')
               (Alternate (anchored ''performance'') (anchored ''opinionated''))"
    and "flag_disable fl = flag_disable (default_flags args) \<Longrightarrow>
           disable (filters l') = literals ''<none>'' EmptyMatch"
    and "flag_enableTags fl = flag_enableTags (default_flags args) \<Longrightarrow>
           enableTags (filters l') = Concat (Star AnyCharNotNL) EmptyMatch"
    and "flag_enable fl = flag_enable (default_flags args) \<Longrightarrow>
           enable (filters l') = Concat (Star AnyCharNotNL) EmptyMatch"
  using parseArgs_Inr [OF assms]
  by (simp_all add: default_flags_def compile_risk_tags compile_none compile_any)

text \<open>
  C4 (amended).  With the default flags every pattern compiles; the name-exclude
  pattern \<^verbatim>\<open><none>\<close> matches exactly the names that contain the text \<^verbatim>\<open><none>\<close>, so
  that no entry whose name is without that text is disabled by name; the tag-exclude
  pattern matches exactly the tags \<^verbatim>\<open>experimental\<close>, \<^verbatim>\<open>performance\<close> and
  \<^verbatim>\<open>opinionated\<close>; the tag-include and the name-include pattern match every text.
\<close>

theorem default_patterns:
  "\<exists>l'. parseArgs (default_flags args) l = Inr l'
     \<and> (\<forall>n. MatchString (disable (filters l')) n = sublist ''<none>'' n)
     \<and> (\<forall>e. snd (initCheckers_switch l' e) = ''disabled by name (-disable)''
              \<longrightarrow> sublist ''<none>'' (Name e))
     \<and> (\<forall>t. MatchString (disableTags (filters l')) t =
              (t \<in> {''experimental'', ''performance'', ''opinionated''}))
     \<and> (\<forall>t. MatchString (enableTags (filters l')) t)
     \<and> (\<forall>n. MatchString (enable (filters l')) n)"
proof -
  obtain l' where parsed: "parseArgs (default_flags args) l = Inr l'"
    using parseArgs_default by blast
  note fs = default_filters [OF parsed, of args, OF refl]
  have name: "MatchString (disable (filters l')) n = sublist ''<none>'' n" for n
    by (simp add: fs(2) MatchString_literals)
  have by_name: "snd (initCheckers_switch l' e) = ''disabled by name (-disable)''
              \<longrightarrow> sublist ''<none>'' (Name e)" for e
    using name [of "Name e"] by (simp add: initCheckers_switch_def)
  have tags: "MatchString (disableTags (filters l')) t =
              (t \<in> {''experimental'', ''performance'', ''opinionated''})" for t
    by (simp only: fs(1) MatchString_risk_tags insert_iff empty_iff simp_thms)
  have every: "MatchString (enableTags (filters l')) t" "MatchString (enable (filters l')) t" for t
    by (simp_all only: fs(3,4) MatchString_any)
  from parsed name by_name tags every show ?thesis by blast
qed

theorem default_patterns_witness:
  "\<not> MatchString (disable (filters (state_of (parseArgs (default_flags []) zero_linter))))
        ''appendAssign''
   \<and> MatchString (disableTags (filters (state_of (parseArgs (default_flags []) zero_linter))))
        ''performance''
   \<and> \<not> MatchString (disableTags (filters (state_of (parseArgs (default_flags []) zero_linter))))
        ''diagnostic''
   \<and> MatchString (enableTags (filters (state_of (parseArgs (default_flags []) zero_linter))))
        ''diagnostic''"
proof -
  from default_patterns [of "[]" zero_linter]
  obtain l' where all: "parseArgs (default_flags []) zero_linter = Inr l'
     \<and> (\<forall>n. MatchString (disable (filters l')) n = sublist ''<none>'' n)
     \<and> (\<forall>e. snd (initCheckers_switch l' e) = ''disabled by name (-disable)''
              \<longrightarrow> sublist ''<none>'' (Name e))
     \<and> (\<forall>t. MatchString (disableTags (filters l')) t =
              (t \<in> {''experimental'', ''performance'', ''opinionated''}))
     \<and> (\<forall>t. MatchString (enableTags (filters l')) t)
     \<and> (\<forall>n. MatchString (enable (filters l')) n)" ..
  have st: "state_of (parseArgs (default_flags []) zero_linter) = l'"
    using all [THEN conjunct1] by simp
  have name: "MatchString (disable (filters l')) ''appendAssign'' = sublist ''<none>'' ''appendAssign''"
    using all [THEN conjunct2, THEN conjunct1] by (rule spec)
  have tags: "MatchString (disableTags (filters l')) t =
              (t \<in> {''experimental'', ''performance'', ''opinionated''})" for t
    using all [THEN conjunct2, THEN conjunct2, THEN conjunct2, THEN conjunct1] by (rule spec)
  have every: "MatchString (enableTags (filters l')) ''diagnostic''"
    using all [THEN conjunct2, THEN conjunct2, THEN conjunct2, THEN conjunct2, THEN conjunct1]
    by (rule spec)
  have "\<not> sublist ''<none>'' ''appendAssign''"
    by (simp add: sublist_Cons_right)
  then have n: "\<not> MatchString (disable (filters l')) ''appendAssign''"
    using name by simp
  have p: "MatchString (disableTags (filters l')) ''performance''"
    unfolding tags by simp
  have d: "\<not> MatchString (disableTags (filters l')) ''diagnostic''"
    unfolding tags by simp
  show ?thesis
    unfolding st by (intro conjI) (rule n p d every)+
qed

theorem default_patterns_counterexample:
  "MatchString (disable (filters (state_of (parseArgs (default_flags []) zero_linter))))
        ''<none>''
   \<and> \<not> fst (initCheckers_switch (state_of (parseArgs (default_flags []) zero_linter))
        \<lparr>Name = ''<none>'', Tags = []\<rparr>)
   \<and> snd (initCheckers_switch (state_of (parseArgs (default_flags []) zero_linter))
        \<lparr>Name = ''<none>'', Tags = []\<rparr>) = ''disabled by name (-disable)''"
  by code_simp

text \<open>
  C3 (amended).  The default flags compile.  An entry that carries the tag
  \<^verbatim>\<open>experimental\<close> is disabled whenever the tag-exclude pattern is the default one,
  whatever the other three patterns are: by default, and also when the tag-include pattern
  is set to match \<^verbatim>\<open>experimental\<close>.  It is enabled when the tag-include pattern matches
  \<^verbatim>\<open>experimental\<close> and, besides, the tag-exclude pattern matches none of its tags and the
  name-exclude pattern does not match its name.
\<close>

theorem experimental_rule_selection:
  "(\<exists>l0. parseArgs (default_flags args) l = Inr l0)
   \<and> (parseArgs fl l = Inr l' \<and> flag_disableTags fl = flag_disableTags (default_flags args) \<and>
      ''experimental'' \<in> set (Tags e) \<longrightarrow> \<not> fst (initCheckers_switch l' e))
   \<and> (''experimental'' \<in> set (Tags e) \<and> MatchString (enableTags (filters l)) ''experimental'' \<and>
      (\<forall>t\<in>set (Tags e). \<not> MatchString (disableTags (filters l)) t) \<and>
      \<not> MatchString (disable (filters l)) (Name e) \<longrightarrow> fst (initCheckers_switch l e))"
proof -
  have compiles: "\<exists>l0. parseArgs (default_flags args) l = Inr l0"
    by (rule parseArgs_default)
  have off: "parseArgs fl l = Inr l' \<and> flag_disableTags fl = flag_disableTags (default_flags args) \<and>
      ''experimental'' \<in> set (Tags e) \<longrightarrow> \<not> fst (initCheckers_switch l' e)"
  proof
    assume a: "parseArgs fl l = Inr l' \<and> flag_disableTags fl = flag_disableTags (default_flags args) \<and>
      ''experimental'' \<in> set (Tags e)"
    then have "disableTags (filters l') =
             Alternate (anchored ''experimental'')
               (Alternate (anchored ''performance'') (anchored ''opinionated''))"
      using default_filters(1) by blast
    then have "MatchString (disableTags (filters l')) ''experimental''"
      by (simp only: MatchString_risk_tags simp_thms)
    then have "disabledByTags l' e"
      using a by (auto simp: disabledByTags_def matchAnyTag_iff)
    then show "\<not> fst (initCheckers_switch l' e)"
      by (simp add: initCheckers_switch_def)
  qed
  have on: "''experimental'' \<in> set (Tags e) \<and> MatchString (enableTags (filters l)) ''experimental'' \<and>
      (\<forall>t\<in>set (Tags e). \<not> MatchString (disableTags (filters l)) t) \<and>
      \<not> MatchString (disable (filters l)) (Name e) \<longrightarrow> fst (initCheckers_switch l e)"
    by (auto simp: initCheckers_switch_def disabledByTags_def enabledByTags_def matchAnyTag_iff)
  show ?thesis
    by (intro conjI) (rule compiles off on)+
qed

theorem experimental_rule_selection_witness:
  "parseArgs experimental_flags zero_linter = Inr (state_of (parseArgs experimental_flags zero_linter))
   \<and> flag_disableTags experimental_flags = flag_disableTags (default_flags [''p''])
   \<and> ''experimental'' \<in> set (Tags (example_registry ! 1))
   \<and> \<not> fst (initCheckers_switch (state_of (parseArgs experimental_flags zero_linter))
            (example_registry ! 1))
   \<and> MatchString (enableTags (filters (state_of (parseArgs
          (experimental_flags\<lparr>flag_disableTags := ''^performance$|^opinionated$''\<rparr>) zero_linter))))
        ''experimental''
   \<and> fst (initCheckers_switch (state_of (parseArgs
          (experimental_flags\<lparr>flag_disableTags := ''^performance$|^opinionated$''\<rparr>) zero_linter))
        (example_registry ! 1))"
proof -
  let ?e = "example_registry ! 1"
  let ?l = "state_of (parseArgs experimental_flags zero_linter)"
  let ?l2 = "state_of (parseArgs
          (experimental_flags\<lparr>flag_disableTags := ''^performance$|^opinionated$''\<rparr>) zero_linter)"
  have "returned (parseArgs experimental_flags zero_linter)" by code_simp
  then have parsed: "parseArgs experimental_flags zero_linter = Inr ?l" by (rule returned_state)
  have same: "flag_disableTags experimental_flags = flag_disableTags (default_flags [''p''])"
    by (simp add: experimental_flags_def default_flags_def)
  have tag: "''experimental'' \<in> set (Tags ?e)" by (simp add: example_registry_def)
  have off: "\<not> fst (initCheckers_switch ?l ?e)"
    using experimental_rule_selection
      [where fl = experimental_flags and l = zero_linter and l' = "?l" and args = "[''p'']"
         and e = "?e", THEN conjunct2, THEN conjunct1]
      parsed same tag by blast
  have inc: "MatchString (enableTags (filters ?l2)) ''experimental''" by code_simp
  have exc: "\<forall>t\<in>set (Tags ?e). \<not> MatchString (disableTags (filters ?l2)) t" by code_simp
  have name: "\<not> MatchString (disable (filters ?l2)) (Name ?e)" by code_simp
  have on: "fst (initCheckers_switch ?l2 ?e)"
    using experimental_rule_selection
      [where l = "?l2" and e = "?e", THEN conjunct2, THEN conjunct2]
      tag inc exc name by blast
  from parsed same tag off inc on show ?thesis by blast
qed

theorem experimental_rule_counterexample:
  "returned (parseArgs experimental_flags zero_linter)
   \<and> flag_disableTags experimental_flags = flag_disableTags (default_flags [''p''])
   \<and> flag_disable experimental_flags = flag_disable (default_flags [''p''])
   \<and> flag_enable experimental_flags = flag_enable (default_flags [''p''])
   \<and> MatchString (enableTags (filters (state_of (parseArgs experimental_flags zero_linter))))
        ''experimental''
   \<and> Tags (example_registry ! 1) = [''experimental'']
   \<and> \<not> fst (initCheckers_switch (state_of (parseArgs experimental_flags zero_linter))
            (example_registry ! 1))"
  by code_simp

end
